theory Spec2Isabelle
  imports Main "HOL-Library.Word"
begin

section \<open>nlmanager: a shallow embedding of \<^verbatim>\<open>src/nlmanager/nlmanager.py\<close>\<close>

text \<open>
  Python's unbounded integers that never go negative here (the sequence counter, the
  process id, the unsigned header fields) are \<open>nat\<close>; the signed error code is \<open>int\<close>.
  A byte string is a list of 8-bit words. Every \<^verbatim>\<open>raise\<close> of the source is a value
  of \<open>error\<close>.
\<close>

type_synonym byte = "8 word"
type_synonym bytes = "byte list"

datatype error =
    StructError                      \<comment> \<open>\<^verbatim>\<open>struct.error\<close>: \<^verbatim>\<open>unpack\<close> on a string of the wrong size\<close>
  | KeyError nat                     \<comment> \<open>a dict subscript with a missing key\<close>
  | ValueError                       \<comment> \<open>\<^verbatim>\<open>int()\<close> on a string that is no integer literal\<close>
  | NetlinkError
  | NetlinkNoAddressError
  | InvalidInterfaceNameVlanCombo
  | UnknownMessageType nat           \<comment> \<open>\<^verbatim>\<open>Exception("RXed unknown netlink message type %s")\<close>\<close>
  | DecodeError                      \<comment> \<open>whatever \<^verbatim>\<open>decode_packet\<close> of nlpacket raises\<close>

subsection \<open>Sequence\<close>

record Sequence =
  next_val :: nat   \<comment> \<open>\<^verbatim>\<open>self._next\<close>\<close>

definition Sequence_init :: Sequence where
  "Sequence_init = \<lparr>next_val = 0\<rparr>"

text \<open>\<^verbatim>\<open>next\<close>: increment the counter, return the new value (and the updated object).\<close>

definition Sequence_next :: "Sequence \<Rightarrow> nat \<times> Sequence" where
  "Sequence_next s = (let s' = s\<lparr>next_val := next_val s + 1\<rparr> in (next_val s', s'))"

subsection \<open>NetlinkManager: the session state\<close>

record NetlinkManager =
  mgr_pid :: nat
  mgr_sequence :: Sequence
  shutdown_flag :: bool
  tx_socket :: bool          \<comment> \<open>whether the socket has been allocated\<close>
  sent :: "bytes list"       \<comment> \<open>the payloads given to \<^verbatim>\<open>sendall\<close>, oldest first\<close>

definition NetlinkManager_init :: "nat \<Rightarrow> NetlinkManager" where
  "NetlinkManager_init p =
     \<lparr>mgr_pid = p, mgr_sequence = Sequence_init, shutdown_flag = False,
      tx_socket = False, sent = []\<rparr>"

text \<open>A built request: the sequence and pid stamped into it, and its encoded buffer.\<close>

record nlrequest =
  req_seq :: nat
  req_pid :: nat
  req_message :: bytes

text \<open>
  \<^verbatim>\<open>tx_nlpacket_raw\<close>: allocate the socket when there is none, then \<^verbatim>\<open>sendall\<close>.
  Failures of the operating system's socket calls are outside the model.
\<close>

definition tx_nlpacket_raw :: "NetlinkManager \<Rightarrow> bytes \<Rightarrow> NetlinkManager" where
  "tx_nlpacket_raw m message = m\<lparr>tx_socket := True, sent := sent m @ [message]\<rparr>"

text \<open>\<^verbatim>\<open>tx_nlpacket\<close>: an unbuilt packet (empty message) is logged and not sent.\<close>

definition tx_nlpacket :: "NetlinkManager \<Rightarrow> nlrequest \<Rightarrow> NetlinkManager" where
  "tx_nlpacket m nlpacket =
     (if req_message nlpacket = [] then m
      else m\<lparr>tx_socket := True, sent := sent m @ [req_message nlpacket]\<rparr>)"

text \<open>
  Every builder ends with \<^verbatim>\<open>x.build_message(self.sequence.next(), self.pid)\<close>.
  Modelled from the spec: \<^verbatim>\<open>build_message\<close> belongs to nlpacket, which is not under src/;
  by its contract \<open>build(sequence, pid) -> bytes\<close> it stamps the two numbers into the
  request and produces the encoded buffer. The encoder is the parameter \<open>enc\<close>.
\<close>

definition build_message :: "(nat \<Rightarrow> nat \<Rightarrow> bytes) \<Rightarrow> nat \<Rightarrow> nat \<Rightarrow> nlrequest" where
  "build_message enc sq p = \<lparr>req_seq = sq, req_pid = p, req_message = enc sq p\<rparr>"

definition build_next :: "(nat \<Rightarrow> nat \<Rightarrow> bytes) \<Rightarrow> NetlinkManager \<Rightarrow> nlrequest \<times> NetlinkManager" where
  "build_next enc m =
     (let (sq, s') = Sequence_next (mgr_sequence m)
      in (build_message enc sq (mgr_pid m), m\<lparr>mgr_sequence := s'\<rparr>))"

text \<open>A session that builds one request after another, one encoder per request.\<close>

fun build_all :: "NetlinkManager \<Rightarrow> (nat \<Rightarrow> nat \<Rightarrow> bytes) list \<Rightarrow> nlrequest list \<times> NetlinkManager" where
  "build_all m [] = ([], m)"
| "build_all m (enc # encs) =
     (let (r, m') = build_next enc m; (rs, m'') = build_all m' encs in (r # rs, m''))"

subsection \<open>Route batching\<close>

definition PACKET_CONCAT_SIZE :: nat where
  "PACKET_CONCAT_SIZE = 16384"

text \<open>
  \<^verbatim>\<open>total_message\<close> is \<^verbatim>\<open>None\<close> or a byte string; \<^verbatim>\<open>not total_message\<close> holds for
  \<^verbatim>\<open>None\<close> and for the empty string.
\<close>

definition tx_or_concat_message ::
  "NetlinkManager \<Rightarrow> bytes option \<Rightarrow> bytes \<Rightarrow> bytes option \<times> NetlinkManager" where
  "tx_or_concat_message m total_message route_message =
     (let total = (case total_message of
                     None \<Rightarrow> route_message
                   | Some t \<Rightarrow> if t = [] then route_message else t @ route_message)
      in if length total \<ge> PACKET_CONCAT_SIZE
         then (None, tx_nlpacket_raw m total)
         else (Some total, m))"

text \<open>
  One \<^verbatim>\<open>for\<close> loop of \<^verbatim>\<open>_routes_add_or_delete\<close>. \<open>enc r\<close> stands for what the loop body
  does with nlpacket's \<^verbatim>\<open>Route\<close>, \<^verbatim>\<open>pack\<close> and \<^verbatim>\<open>add_attribute\<close> for the route \<open>r\<close>
  (at the call's command, table, protocol, scope and type) up to the encoding at a
  sequence and pid.
\<close>

fun concat_routes ::
  "('r \<Rightarrow> nat \<Rightarrow> nat \<Rightarrow> bytes) \<Rightarrow> NetlinkManager \<Rightarrow> bytes option \<Rightarrow> 'r list
     \<Rightarrow> bytes option \<times> NetlinkManager" where
  "concat_routes enc m total_message [] = (total_message, m)"
| "concat_routes enc m total_message (r # rs) =
     (let (route, m1) = build_next (enc r) m;
          (total_message', m2) = tx_or_concat_message m1 total_message (req_message route)
      in concat_routes enc m2 total_message' rs)"

text \<open>\<^verbatim>\<open>if total_message: self.tx_nlpacket_raw(total_message)\<close>\<close>

definition flush_remainder :: "NetlinkManager \<Rightarrow> bytes option \<Rightarrow> NetlinkManager" where
  "flush_remainder m total_message =
     (case total_message of
        None \<Rightarrow> m
      | Some t \<Rightarrow> if t = [] then m else tx_nlpacket_raw m t)"

text \<open>
  \<^verbatim>\<open>_routes_add_or_delete\<close>. The dict \<^verbatim>\<open>ecmp_routes\<close> is the list of its items in
  iteration order. \<^verbatim>\<open>total_message\<close> is not reset between the two loops.
\<close>

definition routes_add_or_delete ::
  "('r \<Rightarrow> nat \<Rightarrow> nat \<Rightarrow> bytes) \<Rightarrow> ('e \<Rightarrow> nat \<Rightarrow> nat \<Rightarrow> bytes) \<Rightarrow> NetlinkManager
     \<Rightarrow> 'r list \<Rightarrow> 'e list \<Rightarrow> NetlinkManager" where
  "routes_add_or_delete enc_route enc_ecmp m routes ecmp_routes =
     (let (total_message, m1) =
            (if routes \<noteq> []
             then (let (t, m') = concat_routes enc_route m None routes
                   in (t, flush_remainder m' t))
             else (None, m))
      in if ecmp_routes \<noteq> []
         then (let (t, m') = concat_routes enc_ecmp m1 total_message ecmp_routes
               in flush_remainder m' t)
         else m1)"

text \<open>The encoded buffers of the requests a loop builds for \<open>rs\<close>, in order.\<close>

definition built_messages :: "('r \<Rightarrow> nat \<Rightarrow> nat \<Rightarrow> bytes) \<Rightarrow> NetlinkManager \<Rightarrow> 'r list \<Rightarrow> bytes list" where
  "built_messages enc m rs = map req_message (fst (build_all m (map enc rs)))"

text \<open>The bytes waiting in \<^verbatim>\<open>total_message\<close>: none for \<^verbatim>\<open>None\<close>.\<close>

definition pending :: "bytes option \<Rightarrow> bytes" where
  "pending total_message = (case total_message of None \<Rightarrow> [] | Some t \<Rightarrow> t)"

subsection \<open>Python strings: \<^verbatim>\<open>split\<close> and \<^verbatim>\<open>int\<close>\<close>

text \<open>\<^verbatim>\<open>s.split(c)\<close> for a one-character separator: never an empty list.\<close>

fun split_on :: "char \<Rightarrow> string \<Rightarrow> string list" where
  "split_on c [] = [[]]"
| "split_on c (x # xs) =
     (if x = c then [] # split_on c xs
      else (case split_on c xs of
              w # ws \<Rightarrow> (x # w) # ws
            | [] \<Rightarrow> [[x]]))"

text \<open>
  Python 2's \<^verbatim>\<open>int(s)\<close> on a byte string, base 10: white space around the literal is
  dropped, then one optional sign, then one or more decimal digits and nothing else;
  every other string raises \<^verbatim>\<open>ValueError\<close>.
\<close>

definition is_space :: "char \<Rightarrow> bool" where
  "is_space c = (c \<in> set [CHR 0x20, CHR 0x09, CHR 0x0A, CHR 0x0B, CHR 0x0C, CHR 0x0D])"

definition strip :: "string \<Rightarrow> string" where
  "strip s = rev (dropWhile is_space (rev (dropWhile is_space s)))"

definition digit_of :: "char \<Rightarrow> nat option" where
  "digit_of c = (let n = (of_char c :: nat) in if 48 \<le> n \<and> n \<le> 57 then Some (n - 48) else None)"

fun digits_value :: "nat \<Rightarrow> string \<Rightarrow> nat option" where
  "digits_value acc [] = Some acc"
| "digits_value acc (c # cs) =
     (case digit_of c of
        None \<Rightarrow> None
      | Some d \<Rightarrow> digits_value (10 * acc + d) cs)"

definition py_int :: "string \<Rightarrow> error + int" where
  "py_int s =
     (let t = strip s;
          (neg, u) = (case t of
                        [] \<Rightarrow> (False, t)
                      | c # r \<Rightarrow> if c = CHR ''-'' then (True, r)
                                else if c = CHR ''+'' then (False, r)
                                else (False, t))
      in if u = [] then Inl ValueError
         else (case digits_value 0 u of
                 None \<Rightarrow> Inl ValueError
               | Some n \<Rightarrow> Inr (if neg then - int n else int n)))"

subsection \<open>Links\<close>

datatype ifla_info_key = IFLA_VLAN_ID | IFLA_MACVLAN_MODE

text \<open>
  \<^verbatim>\<open>_link_add\<close>: build the \<^verbatim>\<open>RTM_NEWLINK\<close> request at the next sequence and hand it to
  \<^verbatim>\<open>tx_nlpacket\<close>. \<open>enc\<close> stands for nlpacket's \<^verbatim>\<open>Link\<close>, \<^verbatim>\<open>pack\<close> and
  \<^verbatim>\<open>add_attribute\<close> on the call's arguments, up to the encoding at a sequence and pid.
\<close>

definition link_add ::
  "(int \<Rightarrow> string \<Rightarrow> string \<Rightarrow> (ifla_info_key \<times> int) list \<Rightarrow> nat \<Rightarrow> nat \<Rightarrow> bytes)
     \<Rightarrow> NetlinkManager \<Rightarrow> int \<Rightarrow> string \<Rightarrow> string \<Rightarrow> (ifla_info_key \<times> int) list
     \<Rightarrow> NetlinkManager" where
  "link_add enc m ifindex ifname kind ifla_info_data =
     (let (link, m1) = build_next (enc ifindex ifname kind ifla_info_data) m
      in tx_nlpacket m1 link)"

text \<open>
  \<^verbatim>\<open>link_add_vlan\<close>: the result is the exception raised, if any, and the session state
  after the call.
\<close>

definition link_add_vlan ::
  "(int \<Rightarrow> string \<Rightarrow> string \<Rightarrow> (ifla_info_key \<times> int) list \<Rightarrow> nat \<Rightarrow> nat \<Rightarrow> bytes)
     \<Rightarrow> NetlinkManager \<Rightarrow> int \<Rightarrow> string \<Rightarrow> int \<Rightarrow> (error + unit) \<times> NetlinkManager" where
  "link_add_vlan enc m ifindex ifname vlanid =
     (if CHR ''.'' \<in> set ifname
      then (case py_int (last (split_on CHR ''.'' ifname)) of
              Inl e \<Rightarrow> (Inl e, m)
            | Inr ifname_vlanid \<Rightarrow>
                if ifname_vlanid \<noteq> vlanid
                then (Inl InvalidInterfaceNameVlanCombo, m)
                else (Inr (), link_add enc m ifindex ifname ''vlan'' [(IFLA_VLAN_ID, vlanid)]))
      else (Inr (), link_add enc m ifindex ifname ''vlan'' [(IFLA_VLAN_ID, vlanid)]))"

subsection \<open>The wire format\<close>

text \<open>
  Modelled from the spec: \<^verbatim>\<open>NetlinkPacket.header_PACK\<close> and \<^verbatim>\<open>header_LEN\<close> belong to
  nlpacket, which is not under src/. The spec gives the frame header as 16 bytes,
  \<open>length:uint32, type:uint16, flags:uint16, sequence:uint32, pid:uint32\<close>, in native
  byte order; the native order is taken little-endian.
\<close>

definition header_LEN :: nat where
  "header_LEN = 16"

fun uint_le :: "bytes \<Rightarrow> nat" where
  "uint_le [] = 0"
| "uint_le (b # bs) = unat b + 256 * uint_le bs"

text \<open>\<^verbatim>\<open>unpack(header_PACK, s)\<close>: \<^verbatim>\<open>struct.error\<close> unless \<open>s\<close> has exactly 16 bytes.\<close>

definition unpack_header :: "bytes \<Rightarrow> error + (nat \<times> nat \<times> nat \<times> nat \<times> nat)" where
  "unpack_header s =
     (if length s \<noteq> 16 then Inl StructError
      else Inr (uint_le (take 4 s), uint_le (take 2 (drop 4 s)), uint_le (take 2 (drop 6 s)),
                uint_le (take 4 (drop 8 s)), uint_le (take 4 (drop 12 s))))"

text \<open>\<^verbatim>\<open>unpack('=i', s)[0]\<close>: a signed 32-bit integer, two's complement.\<close>

definition sint32_le :: "bytes \<Rightarrow> int" where
  "sint32_le s = (let u = uint_le s in if u < 2147483648 then int u else int u - 4294967296)"

definition unpack_i :: "bytes \<Rightarrow> error + int" where
  "unpack_i s = (if length s \<noteq> 4 then Inl StructError else Inr (sint32_le s))"

subsection \<open>What nlmanager takes from nlpacket\<close>

datatype msg_class = Link | Address | Neighbor | Route | Error

text \<open>
  nlpacket is not under src/: its message-type constants, \<^verbatim>\<open>Error.NLE_NOADDR\<close>, the dict
  \<^verbatim>\<open>NetlinkPacket.type_to_string\<close> and the decoders are parameters, gathered in one
  record. \<open>decode_packet N cls msgtype length flags seq pid data\<close> is
  \<^verbatim>\<open>cls(msgtype, debug).decode_packet(length, flags, seq, pid, data)\<close>: the decoded object,
  or what the decoder raises.
\<close>

record 'o nlpacket =
  NLMSG_DONE :: nat
  NLMSG_ERROR :: nat
  RTM_NEWLINK :: nat
  RTM_DELLINK :: nat
  RTM_GETLINK :: nat
  RTM_NEWADDR :: nat
  RTM_DELADDR :: nat
  RTM_GETADDR :: nat
  RTM_NEWNEIGH :: nat
  RTM_DELNEIGH :: nat
  RTM_GETNEIGH :: nat
  RTM_NEWROUTE :: nat
  RTM_DELROUTE :: nat
  RTM_GETROUTE :: nat
  NLE_NOADDR :: int
  type_to_string :: "nat \<Rightarrow> string option"
  decode_packet :: "msg_class \<Rightarrow> nat \<Rightarrow> nat \<Rightarrow> nat \<Rightarrow> nat \<Rightarrow> nat \<Rightarrow> bytes \<Rightarrow> error + 'o"

subsection \<open>\<^verbatim>\<open>tx_nlpacket_get_response\<close>\<close>

text \<open>The class the \<^verbatim>\<open>if/elif\<close> chain on \<^verbatim>\<open>msgtype\<close> picks for a data frame, if any.\<close>

definition frame_class :: "'o nlpacket \<Rightarrow> nat \<Rightarrow> msg_class option" where
  "frame_class N msgtype =
     (if msgtype = RTM_NEWLINK N \<or> msgtype = RTM_DELLINK N then Some Link
      else if msgtype = RTM_NEWADDR N \<or> msgtype = RTM_DELADDR N then Some Address
      else if msgtype = RTM_NEWNEIGH N \<or> msgtype = RTM_DELNEIGH N then Some Neighbor
      else if msgtype = RTM_NEWROUTE N \<or> msgtype = RTM_DELROUTE N then Some Route
      else None)"

text \<open>
  One pass through the body of \<^verbatim>\<open>while data:\<close>: go on with the rest of the buffer and
  the accumulator (\<open>Next\<close>), return the accumulator, or raise.
\<close>

datatype 'o step = Next bytes "'o list" | Return "'o list" | Raise error

definition rx_frame :: "'o nlpacket \<Rightarrow> nlrequest \<Rightarrow> bytes \<Rightarrow> 'o list \<Rightarrow> 'o step" where
  "rx_frame N nlpkt data msgs =
     (case unpack_header (take header_LEN data) of
        Inl e \<Rightarrow> Raise e
      | Inr (len, msgtype, flags, sq, p) \<Rightarrow>
          (case type_to_string N msgtype of
             None \<Rightarrow> Raise (KeyError msgtype)
           | Some name \<Rightarrow>
               if p \<noteq> req_pid nlpkt then Next (drop len data) msgs
               else if sq \<noteq> req_seq nlpkt then Next (drop len data) msgs
               else if msgtype = NLMSG_DONE N then Return msgs
               else if msgtype = NLMSG_ERROR N then
                 (case unpack_i (take 4 (drop header_LEN data)) of
                    Inl e \<Rightarrow> Raise e
                  | Inr code \<Rightarrow>
                      (case decode_packet N Error msgtype len flags sq p data of
                         Inl e \<Rightarrow> Raise e
                       | Inr msg \<Rightarrow>
                           if \<bar>code\<bar> \<noteq> 0
                           then (if \<bar>code\<bar> = NLE_NOADDR N
                                 then Raise NetlinkNoAddressError
                                 else Raise NetlinkError)
                           else Return msgs))
               else
                 (case frame_class N msgtype of
                    None \<Rightarrow> Raise (UnknownMessageType msgtype)
                  | Some cls \<Rightarrow>
                      (case decode_packet N cls msgtype len flags sq p data of
                         Inl e \<Rightarrow> Raise e
                       | Inr msg \<Rightarrow> Next (drop len data) (msgs @ [msg])))))"

text \<open>
  The loop \<^verbatim>\<open>while data:\<close>. \<open>Next [] msgs\<close> is the buffer used up: the outer loop goes on
  with \<open>msgs\<close>. \<open>None\<close> is the loop that never ends (a frame whose length field is 0).
\<close>

partial_function (option) rx_data ::
  "'o nlpacket \<Rightarrow> nlrequest \<Rightarrow> bytes \<Rightarrow> 'o list \<Rightarrow> 'o step option" where
  "rx_data N nlpkt data msgs =
     (if data = [] then Some (Next [] msgs)
      else (case rx_frame N nlpkt data msgs of
              Next data' msgs' \<Rightarrow> rx_data N nlpkt data' msgs'
            | Return m \<Rightarrow> Some (Return m)
            | Raise e \<Rightarrow> Some (Raise e)))"

declare rx_data.simps [code]

text \<open>
  What the outer \<^verbatim>\<open>while True:\<close> meets, one entry per event: a signal handler setting
  \<^verbatim>\<open>shutdown_flag\<close>, a \<^verbatim>\<open>select\<close> that times out after its second, or a \<^verbatim>\<open>select\<close>
  that finds the socket readable followed by the \<^verbatim>\<open>recv\<close> of the given bytes.
\<close>

datatype event = Signal | NotReadable | Readable bytes

text \<open>
  The outcome of the call on the events supplied: a returned list, the \<^verbatim>\<open>None\<close> returned
  for an unbuilt packet, an exception, or, when the events are used up, the loop blocked
  in \<^verbatim>\<open>select\<close> with its counter and accumulator.
\<close>

datatype 'o outcome = Returned "'o list" | ReturnedNone | Raised error | Waiting nat "'o list"

definition MAX_NULL_READS :: nat where
  "MAX_NULL_READS = 30"

fun wait_loop ::
  "'o nlpacket \<Rightarrow> nlrequest \<Rightarrow> bool \<Rightarrow> nat \<Rightarrow> 'o list \<Rightarrow> event list \<Rightarrow> 'o outcome option" where
  "wait_loop N nlpkt True null_read msgs evs = Some (Returned msgs)"
| "wait_loop N nlpkt False null_read msgs [] = Some (Waiting null_read msgs)"
| "wait_loop N nlpkt False null_read msgs (Signal # evs) = wait_loop N nlpkt True null_read msgs evs"
| "wait_loop N nlpkt False null_read msgs (NotReadable # evs) =
     (if null_read + 1 \<ge> MAX_NULL_READS then Some (Returned msgs)
      else wait_loop N nlpkt False (null_read + 1) msgs evs)"
| "wait_loop N nlpkt False null_read msgs (Readable data # evs) =
     (if data = [] then Some (Returned msgs)
      else (case rx_data N nlpkt data msgs of
              None \<Rightarrow> None
            | Some (Next data' msgs') \<Rightarrow> wait_loop N nlpkt False null_read msgs' evs
            | Some (Return m) \<Rightarrow> Some (Returned m)
            | Some (Raise e) \<Rightarrow> Some (Raised e)))"

text \<open>
  The call itself. Logging is left out, except where its arguments can raise: the lookup
  \<^verbatim>\<open>type_to_string[msgtype]\<close> for the debug string is in \<open>rx_frame\<close>.
\<close>

definition tx_nlpacket_get_response ::
  "'o nlpacket \<Rightarrow> NetlinkManager \<Rightarrow> nlrequest \<Rightarrow> event list \<Rightarrow> 'o outcome option \<times> NetlinkManager" where
  "tx_nlpacket_get_response N m nlpkt evs =
     (if req_message nlpkt = [] then (Some ReturnedNone, m)
      else (wait_loop N nlpkt (shutdown_flag m) 0 [] evs,
            m\<lparr>tx_socket := True, sent := sent m @ [req_message nlpkt]\<rparr>))"

text \<open>\<^verbatim>\<open>request_dump\<close>; \<open>enc\<close> stands for the class, body and flags chosen for \<open>rtm_type\<close>.\<close>

definition request_dump ::
  "'o nlpacket \<Rightarrow> (nat \<Rightarrow> nat \<Rightarrow> nat \<Rightarrow> nat \<Rightarrow> bytes) \<Rightarrow> NetlinkManager \<Rightarrow> nat \<Rightarrow> nat \<Rightarrow> event list
     \<Rightarrow> 'o outcome option \<times> NetlinkManager" where
  "request_dump N enc m rtm_type family evs =
     (if rtm_type = RTM_GETADDR N \<or> rtm_type = RTM_GETLINK N
         \<or> rtm_type = RTM_GETNEIGH N \<or> rtm_type = RTM_GETROUTE N
      then (let (msg, m1) = build_next (enc rtm_type family) m
            in tx_nlpacket_get_response N m1 msg evs)
      else (Some ReturnedNone, m))"

subsection \<open>Streams of frames\<close>

text \<open>
  \<open>data_frame N nlpkt f rest obj\<close>: the bytes \<open>f\<close> are one whole frame (the length field is
  the length of \<open>f\<close>) that carries the request's pid and sequence and a data type that
  \<^verbatim>\<open>type_to_string\<close> names, and the decoder, given the buffer from \<open>f\<close> on, yields \<open>obj\<close>.
\<close>

definition data_frame :: "'o nlpacket \<Rightarrow> nlrequest \<Rightarrow> bytes \<Rightarrow> bytes \<Rightarrow> 'o \<Rightarrow> bool" where
  "data_frame N nlpkt f rest obj =
     (case unpack_header (take header_LEN f) of
        Inl e \<Rightarrow> False
      | Inr (len, msgtype, flags, sq, p) \<Rightarrow>
          len = length f \<and> sq = req_seq nlpkt \<and> p = req_pid nlpkt
          \<and> type_to_string N msgtype \<noteq> None
          \<and> msgtype \<noteq> NLMSG_DONE N \<and> msgtype \<noteq> NLMSG_ERROR N
          \<and> (case frame_class N msgtype of
                None \<Rightarrow> False
              | Some cls \<Rightarrow> decode_packet N cls msgtype len flags sq p (f @ rest) = Inr obj))"

text \<open>The frames \<open>fs\<close>, followed by \<open>rest\<close> in the buffer, are data frames decoding to \<open>objs\<close>.\<close>

fun data_frames :: "'o nlpacket \<Rightarrow> nlrequest \<Rightarrow> bytes list \<Rightarrow> bytes \<Rightarrow> 'o list \<Rightarrow> bool" where
  "data_frames N nlpkt [] rest objs = (objs = [])"
| "data_frames N nlpkt (f # fs) rest objs =
     (case objs of
        [] \<Rightarrow> False
      | obj # objs' \<Rightarrow> data_frame N nlpkt f (concat fs @ rest) obj \<and> data_frames N nlpkt fs rest objs')"

text \<open>The buffer \<open>d\<close> starts with a Done frame for the request.\<close>

definition done_frame :: "'o nlpacket \<Rightarrow> nlrequest \<Rightarrow> bytes \<Rightarrow> bool" where
  "done_frame N nlpkt d =
     (case unpack_header (take header_LEN d) of
        Inl e \<Rightarrow> False
      | Inr (len, msgtype, flags, sq, p) \<Rightarrow>
          sq = req_seq nlpkt \<and> p = req_pid nlpkt \<and> msgtype = NLMSG_DONE N
          \<and> type_to_string N msgtype \<noteq> None)"

subsection \<open>An instance of nlpacket, to run the model on concrete buffers\<close>

text \<open>
  The theorems below hold for every value of the record. To run the model on concrete
  buffers one value is fixed here: the numbers Linux gives the names
  (\<open>linux/netlink.h\<close>, \<open>linux/rtnetlink.h\<close>), libnl's number for \<^verbatim>\<open>NLE_NOADDR\<close>, a
  \<^verbatim>\<open>type_to_string\<close> that names the four control types and the link, address, route and
  neighbour types, and a decoder that keeps the class and the frame's bytes.
\<close>

definition linux_type_to_string :: "nat \<Rightarrow> string option" where
  "linux_type_to_string = map_of
     [(1, ''NLMSG_NOOP''), (2, ''NLMSG_ERROR''), (3, ''NLMSG_DONE''), (4, ''NLMSG_OVERRUN''),
      (16, ''RTM_NEWLINK''), (17, ''RTM_DELLINK''), (18, ''RTM_GETLINK''), (19, ''RTM_SETLINK''),
      (20, ''RTM_NEWADDR''), (21, ''RTM_DELADDR''), (22, ''RTM_GETADDR''),
      (24, ''RTM_NEWROUTE''), (25, ''RTM_DELROUTE''), (26, ''RTM_GETROUTE''),
      (28, ''RTM_NEWNEIGH''), (29, ''RTM_DELNEIGH''), (30, ''RTM_GETNEIGH'')]"

definition keep_frame :: "msg_class \<Rightarrow> nat \<Rightarrow> nat \<Rightarrow> nat \<Rightarrow> nat \<Rightarrow> nat \<Rightarrow> bytes \<Rightarrow> error + (msg_class \<times> bytes)" where
  "keep_frame cls msgtype len flags sq p data =
     (if len < 16 \<or> length data < len then Inl DecodeError else Inr (cls, take len data))"

definition linux_nlpacket :: "(msg_class \<times> bytes) nlpacket" where
  "linux_nlpacket =
     \<lparr>NLMSG_DONE = 3, NLMSG_ERROR = 2,
      RTM_NEWLINK = 16, RTM_DELLINK = 17, RTM_GETLINK = 18,
      RTM_NEWADDR = 20, RTM_DELADDR = 21, RTM_GETADDR = 22,
      RTM_NEWNEIGH = 28, RTM_DELNEIGH = 29, RTM_GETNEIGH = 30,
      RTM_NEWROUTE = 24, RTM_DELROUTE = 25, RTM_GETROUTE = 26,
      NLE_NOADDR = 19,
      type_to_string = linux_type_to_string,
      decode_packet = keep_frame\<rparr>"

text \<open>A frame for the concrete runs: the 16-byte header, little-endian, and a body.\<close>

definition le16 :: "nat \<Rightarrow> bytes" where
  "le16 v = [of_nat (v mod 256), of_nat (v div 256 mod 256)]"

definition le32 :: "nat \<Rightarrow> bytes" where
  "le32 v = [of_nat (v mod 256), of_nat (v div 256 mod 256),
             of_nat (v div 65536 mod 256), of_nat (v div 16777216 mod 256)]"

definition frame :: "nat \<Rightarrow> nat \<Rightarrow> nat \<Rightarrow> nat \<Rightarrow> nat \<Rightarrow> bytes \<Rightarrow> bytes" where
  "frame len msgtype flags sq p body =
     le32 len @ le16 msgtype @ le16 flags @ le32 sq @ le32 p @ body"

text \<open>
  A built request (sequence 5, pid 7), two data frames answering it and the Done frame
  that ends its dump.
\<close>

definition sample_request :: nlrequest where
  "sample_request = \<lparr>req_seq = 5, req_pid = 7, req_message = frame 32 18 769 5 7 (replicate 16 0)\<rparr>"

definition link_frame :: bytes where
  "link_frame = frame 20 16 0 5 7 [1, 2, 3, 4]"

definition addr_frame :: bytes where
  "addr_frame = frame 18 20 0 5 7 [9, 9]"

definition done_frame_5_7 :: bytes where
  "done_frame_5_7 = frame 16 3 2 5 7 []"

section \<open>The sequence allocator\<close>

lemma build_all_seqs:
  "map req_seq (fst (build_all m encs)) =
     [next_val (mgr_sequence m) + 1 ..< next_val (mgr_sequence m) + 1 + length encs]"
proof (induction encs arbitrary: m)
  case Nil
  show ?case by simp
next
  case (Cons enc encs)
  have step: "next_val (mgr_sequence (snd (build_next enc m))) = next_val (mgr_sequence m) + 1"
    by (simp add: build_next_def Sequence_next_def Let_def)
  have hd: "req_seq (fst (build_next enc m)) = next_val (mgr_sequence m) + 1"
    by (simp add: build_next_def Sequence_next_def build_message_def Let_def)
  have "map req_seq (fst (build_all m (enc # encs))) =
          req_seq (fst (build_next enc m)) # map req_seq (fst (build_all (snd (build_next enc m)) encs))"
    by (simp add: split_beta Let_def)
  also have "\<dots> = (next_val (mgr_sequence m) + 1) #
          [next_val (mgr_sequence m) + 2 ..< next_val (mgr_sequence m) + 2 + length encs]"
    using Cons.IH [of "snd (build_next enc m)"] by (simp add: step hd)
  also have "\<dots> = [next_val (mgr_sequence m) + 1 ..< next_val (mgr_sequence m) + 1 + length (enc # encs)]"
    by (simp add: upt_rec)
  finally show ?case .
qed

text \<open>
  C7. The first call of \<open>next()\<close> returns 1, every call returns the previous value plus
  one (so a positive value, larger than the one before), and the requests built in a
  session, starting from any state of the allocator, carry the values the allocator
  returned at their build: the consecutive numbers after the counter, which are
  positive and strictly increasing. \<^verbatim>\<open>request_dump\<close> of a supported type advances the
  allocator by one call and sends the buffer encoded at the value that call returned.
\<close>

theorem sequence_stamps_strictly_increasing:
  "fst (Sequence_next Sequence_init) = 1
   \<and> fst (Sequence_next s) = next_val s + 1
   \<and> next_val (snd (Sequence_next s)) = fst (Sequence_next s)
   \<and> req_seq (fst (build_next enc m)) = fst (Sequence_next (mgr_sequence m))
   \<and> mgr_sequence (snd (build_next enc m)) = snd (Sequence_next (mgr_sequence m))
   \<and> map req_seq (fst (build_all m encs)) =
       [next_val (mgr_sequence m) + 1 ..< next_val (mgr_sequence m) + 1 + length encs]
   \<and> sorted_wrt (<) (map req_seq (fst (build_all m encs)))
   \<and> list_all (\<lambda>v. 0 < v) (map req_seq (fst (build_all m encs)))
   \<and> mgr_sequence (snd (request_dump N denc m rtm_type family evs)) =
       (if rtm_type = RTM_GETADDR N \<or> rtm_type = RTM_GETLINK N
           \<or> rtm_type = RTM_GETNEIGH N \<or> rtm_type = RTM_GETROUTE N
        then snd (Sequence_next (mgr_sequence m)) else mgr_sequence m)
   \<and> sent (snd (request_dump N denc m rtm_type family evs)) =
       (if (rtm_type = RTM_GETADDR N \<or> rtm_type = RTM_GETLINK N
           \<or> rtm_type = RTM_GETNEIGH N \<or> rtm_type = RTM_GETROUTE N)
           \<and> denc rtm_type family (fst (Sequence_next (mgr_sequence m))) (mgr_pid m) \<noteq> []
        then sent m @ [denc rtm_type family (fst (Sequence_next (mgr_sequence m))) (mgr_pid m)]
        else sent m)"
proof -
  have a: "fst (Sequence_next Sequence_init) = 1"
    by (simp add: Sequence_next_def Sequence_init_def Let_def)
  have b: "fst (Sequence_next s) = next_val s + 1"
    by (simp add: Sequence_next_def Let_def)
  have c: "next_val (snd (Sequence_next s)) = fst (Sequence_next s)"
    by (simp add: Sequence_next_def Let_def)
  have d: "req_seq (fst (build_next enc m)) = fst (Sequence_next (mgr_sequence m))"
    by (simp add: build_next_def build_message_def split_beta Let_def)
  have e: "mgr_sequence (snd (build_next enc m)) = snd (Sequence_next (mgr_sequence m))"
    by (simp add: build_next_def split_beta Let_def)
  have f: "map req_seq (fst (build_all m encs)) =
       [next_val (mgr_sequence m) + 1 ..< next_val (mgr_sequence m) + 1 + length encs]"
    by (rule build_all_seqs)
  have g: "sorted_wrt (<) (map req_seq (fst (build_all m encs)))"
    unfolding f by (rule sorted_wrt_upt)
  have h: "list_all (\<lambda>v. 0 < v) (map req_seq (fst (build_all m encs)))"
    unfolding f by (auto simp: list_all_iff)
  have i: "mgr_sequence (snd (request_dump N denc m rtm_type family evs)) =
       (if rtm_type = RTM_GETADDR N \<or> rtm_type = RTM_GETLINK N
           \<or> rtm_type = RTM_GETNEIGH N \<or> rtm_type = RTM_GETROUTE N
        then snd (Sequence_next (mgr_sequence m)) else mgr_sequence m)"
    by (simp add: request_dump_def tx_nlpacket_get_response_def build_next_def build_message_def
        split_beta Let_def)
  have j: "sent (snd (request_dump N denc m rtm_type family evs)) =
       (if (rtm_type = RTM_GETADDR N \<or> rtm_type = RTM_GETLINK N
           \<or> rtm_type = RTM_GETNEIGH N \<or> rtm_type = RTM_GETROUTE N)
           \<and> denc rtm_type family (fst (Sequence_next (mgr_sequence m))) (mgr_pid m) \<noteq> []
        then sent m @ [denc rtm_type family (fst (Sequence_next (mgr_sequence m))) (mgr_pid m)]
        else sent m)"
    by (simp add: request_dump_def tx_nlpacket_get_response_def build_next_def build_message_def
        split_beta Let_def)
  from a b c d e f g h i j show ?thesis by blast
qed

section \<open>Route batching\<close>

lemma tx_or_concat_message_eq:
  "tx_or_concat_message m tm msg =
     (if PACKET_CONCAT_SIZE \<le> length (pending tm @ msg)
      then (None, tx_nlpacket_raw m (pending tm @ msg))
      else (Some (pending tm @ msg), m))"
  by (cases tm) (simp_all add: tx_or_concat_message_def pending_def Let_def)

lemma build_all_cong:
  "mgr_pid m = mgr_pid m' \<Longrightarrow> mgr_sequence m = mgr_sequence m'
     \<Longrightarrow> map req_message (fst (build_all m encs)) = map req_message (fst (build_all m' encs))"
proof (induction encs arbitrary: m m')
  case Nil
  show ?case by simp
next
  case (Cons enc encs)
  have a: "fst (build_next enc m) = fst (build_next enc m')"
    using Cons.prems by (simp add: build_next_def split_beta Let_def)
  have b: "mgr_pid (snd (build_next enc m)) = mgr_pid (snd (build_next enc m'))"
    using Cons.prems by (simp add: build_next_def split_beta Let_def)
  have c: "mgr_sequence (snd (build_next enc m)) = mgr_sequence (snd (build_next enc m'))"
    using Cons.prems by (simp add: build_next_def split_beta Let_def)
  show ?case using Cons.IH [OF b c] a by (simp add: split_beta Let_def)
qed

lemma built_messages_Cons:
  "built_messages enc m (r # rs) =
     req_message (fst (build_next (enc r) m)) # built_messages enc (snd (build_next (enc r) m)) rs"
  by (simp add: built_messages_def split_beta Let_def)

lemma built_messages_cong:
  "mgr_pid m = mgr_pid m' \<Longrightarrow> mgr_sequence m = mgr_sequence m'
     \<Longrightarrow> built_messages enc m rs = built_messages enc m' rs"
  unfolding built_messages_def by (rule build_all_cong)

lemma concat_routes_inv:
  "length (pending tm) < PACKET_CONCAT_SIZE \<Longrightarrow>
   \<exists>new. sent (snd (concat_routes enc m tm rs)) = sent m @ new
     \<and> concat new @ pending (fst (concat_routes enc m tm rs)) = pending tm @ concat (built_messages enc m rs)
     \<and> (\<forall>t\<in>set new. PACKET_CONCAT_SIZE \<le> length t
            \<and> (\<exists>p q. t = p @ q \<and> q \<in> set (built_messages enc m rs) \<and> length p < PACKET_CONCAT_SIZE))
     \<and> length (pending (fst (concat_routes enc m tm rs))) < PACKET_CONCAT_SIZE"
proof (induction rs arbitrary: m tm)
  case Nil
  then show ?case by (simp add: built_messages_def)
next
  case (Cons r rs)
  define route where "route = fst (build_next (enc r) m)"
  define m1 where "m1 = snd (build_next (enc r) m)"
  define msg where "msg = req_message route"
  define acc where "acc = pending tm @ msg"
  have sent1: "sent m1 = sent m"
    by (simp add: m1_def build_next_def split_beta Let_def)
  have bm: "built_messages enc m (r # rs) = msg # built_messages enc m1 rs"
    by (simp add: built_messages_Cons msg_def route_def m1_def)
  show ?case
  proof (cases "PACKET_CONCAT_SIZE \<le> length acc")
    case True
    define m2 where "m2 = tx_nlpacket_raw m1 acc"
    have step: "concat_routes enc m tm (r # rs) = concat_routes enc m2 None rs"
      using True
      by (simp add: split_beta Let_def tx_or_concat_message_eq acc_def msg_def route_def m1_def m2_def)
    have p0: "length (pending None) < PACKET_CONCAT_SIZE"
      by (simp add: pending_def PACKET_CONCAT_SIZE_def)
    from Cons.IH [OF p0, of m2] obtain new where
      n1: "sent (snd (concat_routes enc m2 None rs)) = sent m2 @ new" and
      n2: "concat new @ pending (fst (concat_routes enc m2 None rs)) = pending None @ concat (built_messages enc m2 rs)" and
      n3: "\<forall>t\<in>set new. PACKET_CONCAT_SIZE \<le> length t
            \<and> (\<exists>p q. t = p @ q \<and> q \<in> set (built_messages enc m2 rs) \<and> length p < PACKET_CONCAT_SIZE)" and
      n4: "length (pending (fst (concat_routes enc m2 None rs))) < PACKET_CONCAT_SIZE"
      by blast
    have bm2: "built_messages enc m2 rs = built_messages enc m1 rs"
      by (rule built_messages_cong) (simp_all add: m2_def tx_nlpacket_raw_def)
    have sent2: "sent m2 = sent m @ [acc]"
      by (simp add: m2_def tx_nlpacket_raw_def sent1)
    have a: "sent (snd (concat_routes enc m tm (r # rs))) = sent m @ (acc # new)"
      unfolding step by (simp add: n1 sent2)
    have b: "concat (acc # new) @ pending (fst (concat_routes enc m tm (r # rs)))
               = pending tm @ concat (built_messages enc m (r # rs))"
      unfolding step using n2 by (simp add: bm bm2 acc_def pending_def)
    have c: "\<forall>t\<in>set (acc # new). PACKET_CONCAT_SIZE \<le> length t
            \<and> (\<exists>p q. t = p @ q \<and> q \<in> set (built_messages enc m (r # rs)) \<and> length p < PACKET_CONCAT_SIZE)"
    proof
      fix t assume "t \<in> set (acc # new)"
      then consider "t = acc" | "t \<in> set new" by auto
      then show "PACKET_CONCAT_SIZE \<le> length t
            \<and> (\<exists>p q. t = p @ q \<and> q \<in> set (built_messages enc m (r # rs)) \<and> length p < PACKET_CONCAT_SIZE)"
      proof cases
        case 1
        have "acc = pending tm @ msg \<and> msg \<in> set (built_messages enc m (r # rs))
                \<and> length (pending tm) < PACKET_CONCAT_SIZE"
          using Cons.prems by (simp add: acc_def bm)
        then show ?thesis using True 1 by blast
      next
        case 2
        with n3 obtain p q where "PACKET_CONCAT_SIZE \<le> length t" "t = p @ q"
          "q \<in> set (built_messages enc m2 rs)" "length p < PACKET_CONCAT_SIZE" by blast
        then show ?thesis by (auto simp: bm bm2)
      qed
    qed
    have d: "length (pending (fst (concat_routes enc m tm (r # rs)))) < PACKET_CONCAT_SIZE"
      unfolding step using n4 by simp
    from a b c d show ?thesis by blast
  next
    case False
    have step: "concat_routes enc m tm (r # rs) = concat_routes enc m1 (Some acc) rs"
      using False
      by (simp add: split_beta Let_def tx_or_concat_message_eq acc_def msg_def route_def m1_def)
    have p0: "length (pending (Some acc)) < PACKET_CONCAT_SIZE"
      using False by (simp add: pending_def)
    from Cons.IH [OF p0, of m1] obtain new where
      n1: "sent (snd (concat_routes enc m1 (Some acc) rs)) = sent m1 @ new" and
      n2: "concat new @ pending (fst (concat_routes enc m1 (Some acc) rs))
             = pending (Some acc) @ concat (built_messages enc m1 rs)" and
      n3: "\<forall>t\<in>set new. PACKET_CONCAT_SIZE \<le> length t
            \<and> (\<exists>p q. t = p @ q \<and> q \<in> set (built_messages enc m1 rs) \<and> length p < PACKET_CONCAT_SIZE)" and
      n4: "length (pending (fst (concat_routes enc m1 (Some acc) rs))) < PACKET_CONCAT_SIZE"
      by blast
    have a: "sent (snd (concat_routes enc m tm (r # rs))) = sent m @ new"
      unfolding step by (simp add: n1 sent1)
    have b: "concat new @ pending (fst (concat_routes enc m tm (r # rs)))
               = pending tm @ concat (built_messages enc m (r # rs))"
      unfolding step using n2 by (simp add: bm acc_def pending_def)
    have c: "\<forall>t\<in>set new. PACKET_CONCAT_SIZE \<le> length t
            \<and> (\<exists>p q. t = p @ q \<and> q \<in> set (built_messages enc m (r # rs)) \<and> length p < PACKET_CONCAT_SIZE)"
      unfolding bm using n3 by (simp, blast)
    have d: "length (pending (fst (concat_routes enc m tm (r # rs)))) < PACKET_CONCAT_SIZE"
      unfolding step using n4 by simp
    from a b c d show ?thesis by blast
  qed
qed


lemma build_next_state:
  "mgr_pid (snd (build_next enc m)) = mgr_pid m
   \<and> mgr_sequence (snd (build_next enc m)) = snd (Sequence_next (mgr_sequence m))"
  by (simp add: build_next_def split_beta Let_def)

lemma tx_or_concat_message_state:
  "mgr_pid (snd (tx_or_concat_message m tm msg)) = mgr_pid m
   \<and> mgr_sequence (snd (tx_or_concat_message m tm msg)) = mgr_sequence m"
  by (simp add: tx_or_concat_message_eq tx_nlpacket_raw_def)

lemma flush_remainder_state:
  "mgr_pid (flush_remainder m tm) = mgr_pid m \<and> mgr_sequence (flush_remainder m tm) = mgr_sequence m"
  by (simp add: flush_remainder_def tx_nlpacket_raw_def split: option.splits)

lemma build_all_state_cong:
  "mgr_pid m = mgr_pid m' \<Longrightarrow> mgr_sequence m = mgr_sequence m' \<Longrightarrow>
   mgr_pid (snd (build_all m encs)) = mgr_pid (snd (build_all m' encs))
   \<and> mgr_sequence (snd (build_all m encs)) = mgr_sequence (snd (build_all m' encs))"
proof (induction encs arbitrary: m m')
  case Nil
  then show ?case by simp
next
  case (Cons enc encs)
  have p: "mgr_pid (snd (build_next enc m)) = mgr_pid (snd (build_next enc m'))"
    using Cons.prems by (simp add: build_next_state)
  have s: "mgr_sequence (snd (build_next enc m)) = mgr_sequence (snd (build_next enc m'))"
    using Cons.prems by (simp add: build_next_state)
  from Cons.IH [OF p s] show ?case by (simp add: split_beta Let_def)
qed

lemma concat_routes_state:
  "mgr_pid (snd (concat_routes enc m tm rs)) = mgr_pid (snd (build_all m (map enc rs)))
   \<and> mgr_sequence (snd (concat_routes enc m tm rs)) = mgr_sequence (snd (build_all m (map enc rs)))"
proof (induction rs arbitrary: m tm)
  case Nil
  show ?case by simp
next
  case (Cons r rs)
  define m1 where "m1 = snd (build_next (enc r) m)"
  define msg where "msg = req_message (fst (build_next (enc r) m))"
  define m2 where "m2 = snd (tx_or_concat_message m1 tm msg)"
  define tm' where "tm' = fst (tx_or_concat_message m1 tm msg)"
  have step: "concat_routes enc m tm (r # rs) = concat_routes enc m2 tm' rs"
    by (simp add: split_beta Let_def m1_def msg_def m2_def tm'_def)
  have b: "snd (build_all m (map enc (r # rs))) = snd (build_all m1 (map enc rs))"
    by (simp add: split_beta Let_def m1_def)
  have c: "mgr_pid m2 = mgr_pid m1" "mgr_sequence m2 = mgr_sequence m1"
    by (simp_all add: m2_def tx_or_concat_message_state)
  show ?case
    unfolding step b using Cons.IH [of m2 tm'] build_all_state_cong [OF c, of "map enc rs"]
    by simp
qed

text \<open>One loop and the flush after it, from any pending bytes below the budget.\<close>

lemma loop_and_flush:
  assumes "length (pending tm) < PACKET_CONCAT_SIZE"
  shows "\<exists>new. sent (flush_remainder (snd (concat_routes enc m tm rs)) (fst (concat_routes enc m tm rs)))
                   = sent m @ new
     \<and> concat new = pending tm @ concat (built_messages enc m rs)
     \<and> (\<forall>t\<in>set (butlast new). PACKET_CONCAT_SIZE \<le> length t)
     \<and> (\<forall>t\<in>set new. t \<noteq> []
           \<and> (PACKET_CONCAT_SIZE \<le> length t \<longrightarrow>
                (\<exists>p q. t = p @ q \<and> q \<in> set (built_messages enc m rs)
                       \<and> length p < PACKET_CONCAT_SIZE)))
     \<and> length (filter (\<lambda>t. length t < PACKET_CONCAT_SIZE) new) \<le> 1
     \<and> length (pending (fst (concat_routes enc m tm rs))) < PACKET_CONCAT_SIZE"
proof -
  define tm' where "tm' = fst (concat_routes enc m tm rs)"
  define m' where "m' = snd (concat_routes enc m tm rs)"
  from concat_routes_inv [OF assms, of enc m rs] obtain new where
    n1: "sent m' = sent m @ new" and
    n2: "concat new @ pending tm' = pending tm @ concat (built_messages enc m rs)" and
    n3: "\<forall>t\<in>set new. PACKET_CONCAT_SIZE \<le> length t
           \<and> (\<exists>p q. t = p @ q \<and> q \<in> set (built_messages enc m rs)
                  \<and> length p < PACKET_CONCAT_SIZE)" and
    n4: "length (pending tm') < PACKET_CONCAT_SIZE"
    unfolding tm'_def m'_def by blast
  have pos: "0 < PACKET_CONCAT_SIZE" by (simp add: PACKET_CONCAT_SIZE_def)
  have nofilter: "filter (\<lambda>t. length t < PACKET_CONCAT_SIZE) new = []"
    using n3 by (auto simp: filter_empty_conv)
  show ?thesis
  proof (cases "pending tm' = []")
    case True
    have "flush_remainder m' tm' = m'"
      using True by (cases tm') (simp_all add: flush_remainder_def pending_def)
    then have a: "sent (flush_remainder m' tm') = sent m @ new" by (simp add: n1)
    have b: "concat new = pending tm @ concat (built_messages enc m rs)"
      using n2 True by simp
    have c: "\<forall>t\<in>set (butlast new). PACKET_CONCAT_SIZE \<le> length t"
      using n3 by (auto dest: in_set_butlastD)
    have d: "\<forall>t\<in>set new. t \<noteq> []
           \<and> (PACKET_CONCAT_SIZE \<le> length t \<longrightarrow>
                (\<exists>p q. t = p @ q \<and> q \<in> set (built_messages enc m rs)
                       \<and> length p < PACKET_CONCAT_SIZE))"
      using n3 pos by fastforce
    have e: "length (filter (\<lambda>t. length t < PACKET_CONCAT_SIZE) new) \<le> 1"
      by (simp add: nofilter)
    from a b c d e n4 show ?thesis unfolding tm'_def m'_def by blast
  next
    case False
    have "flush_remainder m' tm' = tx_nlpacket_raw m' (pending tm')"
      using False by (cases tm') (simp_all add: flush_remainder_def pending_def)
    then have a: "sent (flush_remainder m' tm') = sent m @ (new @ [pending tm'])"
      by (simp add: n1 tx_nlpacket_raw_def)
    have b: "concat (new @ [pending tm']) = pending tm @ concat (built_messages enc m rs)"
      using n2 by simp
    have c: "\<forall>t\<in>set (butlast (new @ [pending tm'])). PACKET_CONCAT_SIZE \<le> length t"
      using n3 by simp
    have d: "\<forall>t\<in>set (new @ [pending tm']). t \<noteq> []
           \<and> (PACKET_CONCAT_SIZE \<le> length t \<longrightarrow>
                (\<exists>p q. t = p @ q \<and> q \<in> set (built_messages enc m rs)
                       \<and> length p < PACKET_CONCAT_SIZE))"
    proof
      fix t assume "t \<in> set (new @ [pending tm'])"
      then consider "t \<in> set new" | "t = pending tm'" by auto
      then show "t \<noteq> []
           \<and> (PACKET_CONCAT_SIZE \<le> length t \<longrightarrow>
                (\<exists>p q. t = p @ q \<and> q \<in> set (built_messages enc m rs)
                       \<and> length p < PACKET_CONCAT_SIZE))"
      proof cases
        case 1
        then show ?thesis using n3 pos by fastforce
      next
        case 2
        then show ?thesis using False n4 by simp
      qed
    qed
    have e: "length (filter (\<lambda>t. length t < PACKET_CONCAT_SIZE) (new @ [pending tm'])) \<le> 1"
      by (simp add: nofilter)
    from a b c d e n4 show ?thesis unfolding tm'_def m'_def by blast
  qed
qed

lemma routes_add_or_delete_cases:
  "routes_add_or_delete enc_route enc_ecmp m routes ecmp_routes =
     (let tm1 = (if routes = [] then None else fst (concat_routes enc_route m None routes));
          m1 = (if routes = [] then m
                else flush_remainder (snd (concat_routes enc_route m None routes))
                       (fst (concat_routes enc_route m None routes)))
      in if ecmp_routes = [] then m1
         else flush_remainder (snd (concat_routes enc_ecmp m1 tm1 ecmp_routes))
                (fst (concat_routes enc_ecmp m1 tm1 ecmp_routes)))"
  by (simp add: routes_add_or_delete_def split_beta Let_def)

lemma routes_add_or_delete_inv:
  "\<exists>new. sent (routes_add_or_delete enc_route enc_ecmp m routes ecmp_routes) = sent m @ new
     \<and> (\<forall>t\<in>set new. t \<noteq> []
           \<and> (PACKET_CONCAT_SIZE \<le> length t \<longrightarrow>
                (\<exists>p q. t = p @ q
                   \<and> q \<in> set (built_messages enc_route m routes
                               @ built_messages enc_ecmp (snd (build_all m (map enc_route routes))) ecmp_routes)
                   \<and> length p < PACKET_CONCAT_SIZE)))
     \<and> length (filter (\<lambda>t. length t < PACKET_CONCAT_SIZE) new)
          \<le> (if routes = [] then 0 else 1) + (if ecmp_routes = [] then 0 else 1)
     \<and> (\<exists>again. concat new
            = concat (built_messages enc_route m routes) @ again
              @ concat (built_messages enc_ecmp (snd (build_all m (map enc_route routes))) ecmp_routes))
     \<and> (ecmp_routes = [] \<longrightarrow>
           concat new = concat (built_messages enc_route m routes)
           \<and> (\<forall>t\<in>set (butlast new). PACKET_CONCAT_SIZE \<le> length t))
     \<and> (routes = [] \<longrightarrow>
           concat new = concat (built_messages enc_ecmp m ecmp_routes)
           \<and> (\<forall>t\<in>set (butlast new). PACKET_CONCAT_SIZE \<le> length t))"
proof -
  define msgs1 where "msgs1 = built_messages enc_route m routes"
  define msgs2 where
    "msgs2 = built_messages enc_ecmp (snd (build_all m (map enc_route routes))) ecmp_routes"
  define tm1 where "tm1 = (if routes = [] then None else fst (concat_routes enc_route m None routes))"
  define m1 where "m1 = (if routes = [] then m
                else flush_remainder (snd (concat_routes enc_route m None routes))
                       (fst (concat_routes enc_route m None routes)))"
  have p0: "length (pending None) < PACKET_CONCAT_SIZE"
    by (simp add: pending_def PACKET_CONCAT_SIZE_def)
  \<comment> \<open>the first loop\<close>
  have first: "\<exists>new. sent m1 = sent m @ new
     \<and> concat new = concat msgs1
     \<and> (\<forall>t\<in>set (butlast new). PACKET_CONCAT_SIZE \<le> length t)
     \<and> (\<forall>t\<in>set new. t \<noteq> []
           \<and> (PACKET_CONCAT_SIZE \<le> length t \<longrightarrow>
                (\<exists>p q. t = p @ q \<and> q \<in> set msgs1 \<and> length p < PACKET_CONCAT_SIZE)))
     \<and> length (filter (\<lambda>t. length t < PACKET_CONCAT_SIZE) new) \<le> (if routes = [] then 0 else 1)
     \<and> length (pending tm1) < PACKET_CONCAT_SIZE"
  proof (cases "routes = []")
    case True
    then show ?thesis by (simp add: m1_def tm1_def msgs1_def built_messages_def p0)
  next
    case False
    from loop_and_flush [OF p0, of enc_route m routes] False
    show ?thesis by (simp add: m1_def tm1_def msgs1_def pending_def)
  qed
  then obtain new1 where
    a1: "sent m1 = sent m @ new1" and
    b1: "concat new1 = concat msgs1" and
    c1: "\<forall>t\<in>set (butlast new1). PACKET_CONCAT_SIZE \<le> length t" and
    d1: "\<forall>t\<in>set new1. t \<noteq> []
           \<and> (PACKET_CONCAT_SIZE \<le> length t \<longrightarrow>
                (\<exists>p q. t = p @ q \<and> q \<in> set msgs1 \<and> length p < PACKET_CONCAT_SIZE))" and
    e1: "length (filter (\<lambda>t. length t < PACKET_CONCAT_SIZE) new1) \<le> (if routes = [] then 0 else 1)" and
    f1: "length (pending tm1) < PACKET_CONCAT_SIZE"
    by blast
  \<comment> \<open>the state the second loop builds from\<close>
  have st: "mgr_pid m1 = mgr_pid (snd (build_all m (map enc_route routes)))
            \<and> mgr_sequence m1 = mgr_sequence (snd (build_all m (map enc_route routes)))"
    by (simp add: m1_def flush_remainder_state concat_routes_state)
  have bm2: "built_messages enc_ecmp m1 ecmp_routes = msgs2"
    unfolding msgs2_def using st by (intro built_messages_cong) simp_all
  have res: "routes_add_or_delete enc_route enc_ecmp m routes ecmp_routes =
      (if ecmp_routes = [] then m1
       else flush_remainder (snd (concat_routes enc_ecmp m1 tm1 ecmp_routes))
              (fst (concat_routes enc_ecmp m1 tm1 ecmp_routes)))"
    by (simp add: routes_add_or_delete_cases m1_def tm1_def Let_def)
  have main: "\<exists>new. sent (routes_add_or_delete enc_route enc_ecmp m routes ecmp_routes) = sent m @ new
     \<and> (\<forall>t\<in>set new. t \<noteq> []
           \<and> (PACKET_CONCAT_SIZE \<le> length t \<longrightarrow>
                (\<exists>p q. t = p @ q \<and> q \<in> set (msgs1 @ msgs2) \<and> length p < PACKET_CONCAT_SIZE)))
     \<and> length (filter (\<lambda>t. length t < PACKET_CONCAT_SIZE) new)
          \<le> (if routes = [] then 0 else 1) + (if ecmp_routes = [] then 0 else 1)
     \<and> (\<exists>again. concat new = concat msgs1 @ again @ concat msgs2)
     \<and> (ecmp_routes = [] \<longrightarrow>
           concat new = concat msgs1
           \<and> (\<forall>t\<in>set (butlast new). PACKET_CONCAT_SIZE \<le> length t))
     \<and> (routes = [] \<longrightarrow>
           concat new = concat (built_messages enc_ecmp m ecmp_routes)
           \<and> (\<forall>t\<in>set (butlast new). PACKET_CONCAT_SIZE \<le> length t))"
  proof (cases "ecmp_routes = []")
    case True
    have r: "routes = [] \<longrightarrow> new1 = []"
      using a1 by (auto simp: m1_def)
    have "sent (routes_add_or_delete enc_route enc_ecmp m routes ecmp_routes) = sent m @ new1"
      unfolding res using True a1 by simp
    moreover have "\<forall>t\<in>set new1. t \<noteq> []
           \<and> (PACKET_CONCAT_SIZE \<le> length t \<longrightarrow>
                (\<exists>p q. t = p @ q \<and> q \<in> set (msgs1 @ msgs2) \<and> length p < PACKET_CONCAT_SIZE))"
      using d1 by fastforce
    moreover have "length (filter (\<lambda>t. length t < PACKET_CONCAT_SIZE) new1)
          \<le> (if routes = [] then 0 else 1) + (if ecmp_routes = [] then 0 else 1)"
      using e1 True by simp
    moreover have "routes = [] \<longrightarrow>
           concat new1 = concat (built_messages enc_ecmp m ecmp_routes)
           \<and> (\<forall>t\<in>set (butlast new1). PACKET_CONCAT_SIZE \<le> length t)"
      using r True by (simp add: built_messages_def)
    moreover have "\<exists>again. concat new1 = concat msgs1 @ again @ concat msgs2"
    proof
      show "concat new1 = concat msgs1 @ [] @ concat msgs2"
        using b1 True by (simp add: msgs2_def built_messages_def)
    qed
    ultimately show ?thesis using b1 c1 by blast
  next
    case False
    from loop_and_flush [OF f1, of enc_ecmp m1 ecmp_routes] obtain new2 where
      a2: "sent (routes_add_or_delete enc_route enc_ecmp m routes ecmp_routes) = sent m1 @ new2" and
      b2: "concat new2 = pending tm1 @ concat msgs2" and
      c2: "\<forall>t\<in>set (butlast new2). PACKET_CONCAT_SIZE \<le> length t" and
      d2: "\<forall>t\<in>set new2. t \<noteq> []
           \<and> (PACKET_CONCAT_SIZE \<le> length t \<longrightarrow>
                (\<exists>p q. t = p @ q \<and> q \<in> set msgs2 \<and> length p < PACKET_CONCAT_SIZE))" and
      e2: "length (filter (\<lambda>t. length t < PACKET_CONCAT_SIZE) new2) \<le> 1"
      unfolding bm2 res using False by auto
    have a: "sent (routes_add_or_delete enc_route enc_ecmp m routes ecmp_routes)
               = sent m @ (new1 @ new2)"
      by (simp add: a2 a1)
    have d: "\<forall>t\<in>set (new1 @ new2). t \<noteq> []
           \<and> (PACKET_CONCAT_SIZE \<le> length t \<longrightarrow>
                (\<exists>p q. t = p @ q \<and> q \<in> set (msgs1 @ msgs2) \<and> length p < PACKET_CONCAT_SIZE))"
    proof
      fix t assume "t \<in> set (new1 @ new2)"
      then consider "t \<in> set new1" | "t \<in> set new2" by auto
      then show "t \<noteq> []
           \<and> (PACKET_CONCAT_SIZE \<le> length t \<longrightarrow>
                (\<exists>p q. t = p @ q \<and> q \<in> set (msgs1 @ msgs2) \<and> length p < PACKET_CONCAT_SIZE))"
      proof cases
        case 1
        with d1 show ?thesis by fastforce
      next
        case 2
        with d2 show ?thesis by fastforce
      qed
    qed
    have e: "length (filter (\<lambda>t. length t < PACKET_CONCAT_SIZE) (new1 @ new2))
          \<le> (if routes = [] then 0 else 1) + (if ecmp_routes = [] then 0 else 1)"
      using e1 e2 False by simp
    have g: "routes = [] \<longrightarrow>
           concat (new1 @ new2) = concat (built_messages enc_ecmp m ecmp_routes)
           \<and> (\<forall>t\<in>set (butlast (new1 @ new2)). PACKET_CONCAT_SIZE \<le> length t)"
    proof
      assume r: "routes = []"
      have n1: "new1 = []" using a1 r by (simp add: m1_def)
      have "msgs2 = built_messages enc_ecmp m ecmp_routes" using r by (simp add: msgs2_def)
      moreover have "pending tm1 = []" using r by (simp add: tm1_def pending_def)
      ultimately show "concat (new1 @ new2) = concat (built_messages enc_ecmp m ecmp_routes)
           \<and> (\<forall>t\<in>set (butlast (new1 @ new2)). PACKET_CONCAT_SIZE \<le> length t)"
        using b2 c2 n1 by simp
    qed
    have h: "\<exists>again. concat (new1 @ new2) = concat msgs1 @ again @ concat msgs2"
    proof
      show "concat (new1 @ new2) = concat msgs1 @ pending tm1 @ concat msgs2"
        using b1 b2 by simp
    qed
    from a d e g h False show ?thesis by blast
  qed
  show ?thesis using main unfolding msgs1_def msgs2_def .
qed

lemma concat_routes_append:
  "concat_routes enc m tm (rs @ rs') =
     concat_routes enc (snd (concat_routes enc m tm rs)) (fst (concat_routes enc m tm rs)) rs'"
  by (induction rs arbitrary: m tm) (simp_all add: split_beta Let_def)

lemma length_concat_replicate: "length (concat (replicate n xs)) = n * length xs"
  by (induction n) simp_all

lemma built_messages_const:
  "built_messages (\<lambda>r sq p. msg) m rs = replicate (length rs) msg"
proof (induction rs arbitrary: m)
  case Nil
  show ?case by (simp add: built_messages_def)
next
  case (Cons r rs)
  show ?case
    unfolding built_messages_Cons Cons.IH
    by (simp add: build_next_def build_message_def split_beta Let_def)
qed

lemma concat_routes_below:
  "length (pending tm) + length rs * length msg < PACKET_CONCAT_SIZE \<Longrightarrow>
     sent (snd (concat_routes (\<lambda>r sq p. msg) m tm rs)) = sent m
     \<and> pending (fst (concat_routes (\<lambda>r sq p. msg) m tm rs))
         = pending tm @ concat (replicate (length rs) msg)"
proof (induction rs arbitrary: m tm)
  case Nil
  show ?case by simp
next
  case (Cons r rs)
  define m1 where "m1 = snd (build_next (\<lambda>sq p. msg) m)"
  have s1: "sent m1 = sent m"
    by (simp add: m1_def build_next_def split_beta Let_def)
  have small: "\<not> PACKET_CONCAT_SIZE \<le> length (pending tm @ msg)"
    using Cons.prems by simp
  have step: "concat_routes (\<lambda>r sq p. msg) m tm (r # rs)
                = concat_routes (\<lambda>r sq p. msg) m1 (Some (pending tm @ msg)) rs"
    using small
    by (simp add: split_beta Let_def tx_or_concat_message_eq m1_def build_next_def build_message_def)
  have p: "length (pending (Some (pending tm @ msg))) + length rs * length msg < PACKET_CONCAT_SIZE"
    using Cons.prems by (simp add: pending_def)
  show ?case
    unfolding step using Cons.IH [OF p, of m1] by (simp add: s1 pending_def)
qed

lemma sample_batch:
  "sent (routes_add_or_delete (\<lambda>(r::unit) sq p. replicate 60 (0::byte)) (\<lambda>(r::nat) sq p. [])
           (NetlinkManager_init 7) (replicate 273 () @ [()]) [])
     = [concat (replicate 273 (replicate 60 0)) @ replicate 60 0]"
proof -
  define enc where "enc = (\<lambda>(r::unit) (sq::nat) (p::nat). replicate 60 (0::byte))"
  define m0 where "m0 = NetlinkManager_init 7"
  define tm where "tm = fst (concat_routes enc m0 None (replicate 273 ()))"
  define m' where "m' = snd (concat_routes enc m0 None (replicate 273 ()))"
  have below: "length (pending None) + length (replicate 273 ()) * length (replicate 60 (0::byte))
                 < PACKET_CONCAT_SIZE"
    by (simp add: pending_def PACKET_CONCAT_SIZE_def)
  from concat_routes_below [OF below, of m0]
  have s: "sent m' = []" and p: "pending tm = concat (replicate 273 (replicate 60 0))"
    by (simp_all add: m'_def tm_def enc_def m0_def NetlinkManager_init_def pending_def)
  have big: "PACKET_CONCAT_SIZE \<le> length (pending tm @ replicate 60 (0::byte))"
    by (simp add: p length_concat_replicate PACKET_CONCAT_SIZE_def)
  have last: "concat_routes enc m' tm [()]
                = (None, tx_nlpacket_raw (snd (build_next (enc ()) m')) (pending tm @ replicate 60 0))"
    using big
    by (simp add: split_beta Let_def tx_or_concat_message_eq build_next_def build_message_def enc_def)
  have all: "concat_routes enc m0 None (replicate 273 () @ [()])
                = (None, tx_nlpacket_raw (snd (build_next (enc ()) m')) (pending tm @ replicate 60 0))"
    unfolding concat_routes_append using last by (simp add: tm_def m'_def)
  have "sent (routes_add_or_delete enc (\<lambda>(r::nat) sq p. []) m0 (replicate 273 () @ [()]) [])
          = [pending tm @ replicate 60 0]"
    unfolding routes_add_or_delete_def all
    by (simp add: flush_remainder_def tx_nlpacket_raw_def build_next_def split_beta Let_def s)
  then show ?thesis by (simp add: enc_def m0_def p)
qed

text \<open>
  With both lists given, the remainder flushed after the first loop is still in
  \<^verbatim>\<open>total_message\<close> and leaves again in front of the ecmp requests.
\<close>

lemma remainder_sent_again_with_ecmp_routes:
  "sent (routes_add_or_delete (\<lambda>(r::unit) sq p. replicate 60 (0::byte))
           (\<lambda>(e::unit) sq p. replicate 80 (1::byte)) (NetlinkManager_init 7) [()] [()])
     = [replicate 60 0, replicate 60 0 @ replicate 80 1]"
  by (simp add: routes_add_or_delete_def build_next_def build_message_def Sequence_next_def
      NetlinkManager_init_def Sequence_init_def tx_or_concat_message_def PACKET_CONCAT_SIZE_def
      flush_remainder_def tx_nlpacket_raw_def Let_def)

text \<open>
  C6 (amended). \<open>tx_or_concat_message\<close> appends the request to the pending bytes and
  flushes exactly when the result has reached 16384 bytes, else keeps it. For any call,
  every built request is transmitted, in the order built; no transmission is empty; a
  transmission that has reached the budget is below it without its last request (so it
  may exceed the budget by less than the size of that request); and at most one
  transmission per loop that ran is below the budget: the remainder flushed after that
  loop. For a call with one of the two lists only, the transmissions carry the built
  requests and nothing else, nothing twice, and every transmission but the last has
  reached the budget.
\<close>

theorem route_batches_flush_at_threshold:
  "tx_or_concat_message m tm msg =
     (if PACKET_CONCAT_SIZE \<le> length (pending tm @ msg)
      then (None, tx_nlpacket_raw m (pending tm @ msg))
      else (Some (pending tm @ msg), m))
   \<and> (\<exists>new. sent (routes_add_or_delete enc_route enc_ecmp m routes ecmp_routes) = sent m @ new
     \<and> (\<forall>t\<in>set new. t \<noteq> []
           \<and> (PACKET_CONCAT_SIZE \<le> length t \<longrightarrow>
                (\<exists>p q. t = p @ q
                   \<and> q \<in> set (built_messages enc_route m routes
                               @ built_messages enc_ecmp (snd (build_all m (map enc_route routes))) ecmp_routes)
                   \<and> length p < PACKET_CONCAT_SIZE)))
     \<and> length (filter (\<lambda>t. length t < PACKET_CONCAT_SIZE) new)
          \<le> (if routes = [] then 0 else 1) + (if ecmp_routes = [] then 0 else 1)
     \<and> (\<exists>again. concat new
            = concat (built_messages enc_route m routes) @ again
              @ concat (built_messages enc_ecmp (snd (build_all m (map enc_route routes))) ecmp_routes))
     \<and> (ecmp_routes = [] \<longrightarrow>
           concat new = concat (built_messages enc_route m routes)
           \<and> (\<forall>t\<in>set (butlast new). PACKET_CONCAT_SIZE \<le> length t))
     \<and> (routes = [] \<longrightarrow>
           concat new = concat (built_messages enc_ecmp m ecmp_routes)
           \<and> (\<forall>t\<in>set (butlast new). PACKET_CONCAT_SIZE \<le> length t)))"
  using tx_or_concat_message_eq [of m tm msg]
    routes_add_or_delete_inv [of enc_route enc_ecmp m routes ecmp_routes]
  by blast

theorem route_batches_flush_at_threshold_witness:
  "sent (routes_add_or_delete (\<lambda>(r::unit) sq p. replicate 60 (0::byte)) (\<lambda>(r::nat) sq p. [])
          (NetlinkManager_init 7) (replicate 273 () @ [()]) [])
     = [concat (replicate 273 (replicate 60 0)) @ replicate 60 0]
   \<and> (\<exists>p q. concat (replicate 273 (replicate 60 (0::byte))) @ replicate 60 0 = p @ q
         \<and> q = replicate 60 0 \<and> length p < PACKET_CONCAT_SIZE)
   \<and> concat (sent (routes_add_or_delete (\<lambda>(r::unit) sq p. replicate 60 (0::byte))
          (\<lambda>(r::nat) sq p. []) (NetlinkManager_init 7) (replicate 273 () @ [()]) []))
     = concat (built_messages (\<lambda>(r::unit) sq p. replicate 60 (0::byte)) (NetlinkManager_init 7)
                 (replicate 273 () @ [()]))"
proof -
  from route_batches_flush_at_threshold
    [of "NetlinkManager_init 7" None "[]" "\<lambda>(r::unit) sq p. replicate 60 (0::byte)"
        "\<lambda>(r::nat) sq p. []" "replicate 273 () @ [()]" "[]"]
  obtain new where
    a: "sent (routes_add_or_delete (\<lambda>(r::unit) sq p. replicate 60 (0::byte)) (\<lambda>(r::nat) sq p. [])
           (NetlinkManager_init 7) (replicate 273 () @ [()]) []) = sent (NetlinkManager_init 7) @ new" and
    d: "\<forall>t\<in>set new. t \<noteq> []
           \<and> (PACKET_CONCAT_SIZE \<le> length t \<longrightarrow>
                (\<exists>p q. t = p @ q
                   \<and> q \<in> set (built_messages (\<lambda>(r::unit) sq p. replicate 60 (0::byte))
                                (NetlinkManager_init 7) (replicate 273 () @ [()])
                               @ built_messages (\<lambda>(r::nat) sq p. [])
                                   (snd (build_all (NetlinkManager_init 7)
                                      (map (\<lambda>(r::unit) sq p. replicate 60 (0::byte))
                                         (replicate 273 () @ [()])))) [])
                   \<and> length p < PACKET_CONCAT_SIZE))" and
    c: "concat new = concat (built_messages (\<lambda>(r::unit) sq p. replicate 60 (0::byte))
                               (NetlinkManager_init 7) (replicate 273 () @ [()]))"
    by blast
  have s0: "sent (NetlinkManager_init 7) = []" by (simp add: NetlinkManager_init_def)
  have new: "new = [concat (replicate 273 (replicate 60 0)) @ replicate 60 0]"
    using a unfolding sample_batch s0 by simp
  have big: "PACKET_CONCAT_SIZE \<le> length (concat (replicate 273 (replicate 60 (0::byte))) @ replicate 60 0)"
    by (simp add: PACKET_CONCAT_SIZE_def length_concat_replicate)
  have e: "built_messages (\<lambda>(r::nat) sq p. []) mm [] = []" for mm
    by (simp add: built_messages_def)
  have two: "\<exists>p q. concat (replicate 273 (replicate 60 (0::byte))) @ replicate 60 0 = p @ q
         \<and> q = replicate 60 0 \<and> length p < PACKET_CONCAT_SIZE"
    using d new big unfolding built_messages_const e by simp
  have three: "concat (sent (routes_add_or_delete (\<lambda>(r::unit) sq p. replicate 60 (0::byte))
          (\<lambda>(r::nat) sq p. []) (NetlinkManager_init 7) (replicate 273 () @ [()]) []))
     = concat (built_messages (\<lambda>(r::unit) sq p. replicate 60 (0::byte)) (NetlinkManager_init 7)
                 (replicate 273 () @ [()]))"
    unfolding a s0 using c by simp
  from sample_batch two three show ?thesis by blast
qed

text \<open>
  C6 as stated fails: 274 route requests of 60 bytes each, none of them oversized, leave
  in one transmission of 16440 bytes, above the budget of 16384.
\<close>

theorem transmission_exceeds_budget_counterexample:
  "built_messages (\<lambda>(r::unit) sq p. replicate 60 (0::byte)) (NetlinkManager_init 7)
       (replicate 273 () @ [()]) = replicate 274 (replicate 60 0)
   \<and> 60 < PACKET_CONCAT_SIZE
   \<and> map length (sent (routes_add_or_delete (\<lambda>(r::unit) sq p. replicate 60 (0::byte))
           (\<lambda>(r::nat) sq p. []) (NetlinkManager_init 7) (replicate 273 () @ [()]) [])) = [16440]
   \<and> PACKET_CONCAT_SIZE < 16440"
  unfolding sample_batch built_messages_const
  by (simp add: PACKET_CONCAT_SIZE_def length_concat_replicate)

section \<open>The wire format\<close>

lemma uint_le_le16: "v < 65536 \<Longrightarrow> uint_le (le16 v) = v"
  by (simp add: le16_def unat_of_nat) 

lemma split4:
  fixes v :: nat
  assumes "v < 4294967296"
  shows "v mod 256 + (256 * (v div 256 mod 256) + (65536 * (v div 65536 mod 256) + 16777216 * (v div 16777216))) = v"
proof -
  have a: "v div 65536 = v div 256 div 256" by (simp add: div_mult2_eq)
  have b: "v div 16777216 = v div 256 div 256 div 256" by (simp add: div_mult2_eq)
  define x where "x = v div 256"
  define y where "y = x div 256"
  define z where "z = y div 256"
  have 1: "v = 256 * x + v mod 256" by (simp add: x_def)
  have 2: "x = 256 * y + x mod 256" by (simp add: y_def)
  have 3: "y = 256 * z + y mod 256" by (simp add: z_def)
  have "v mod 256 + (256 * (x mod 256) + (65536 * (y mod 256) + 16777216 * z)) = v"
    using 1 2 3 by linarith
  then show ?thesis by (simp add: a b x_def y_def z_def)
qed

lemma uint_le_le32: "v < 4294967296 \<Longrightarrow> uint_le (le32 v) = v"
proof -
  assume v: "v < 4294967296"
  have "v div 16777216 < 256" using v by simp
  then have "v div 16777216 mod 256 = v div 16777216" by simp
  then show ?thesis using split4 [OF v] by (simp add: le32_def unat_of_nat)
qed


lemma length_le16 [simp]: "length (le16 v) = 2"
  by (simp add: le16_def)

lemma length_le32 [simp]: "length (le32 v) = 4"
  by (simp add: le32_def)

lemma length_frame [simp]: "length (frame len msgtype flags sq p body) = 16 + length body"
  by (simp add: frame_def)

lemma unpack_header_frame:
  assumes "len < 4294967296" "msgtype < 65536" "flags < 65536" "sq < 4294967296" "p < 4294967296"
  shows "unpack_header (take header_LEN (frame len msgtype flags sq p body @ rest))
           = Inr (len, msgtype, flags, sq, p)"
proof -
  have t: "take header_LEN (frame len msgtype flags sq p body @ rest)
             = le32 len @ le16 msgtype @ le16 flags @ le32 sq @ le32 p"
    by (simp add: header_LEN_def frame_def)
  show ?thesis
    unfolding t using assms
    by (simp add: unpack_header_def uint_le_le16 uint_le_le32)
qed

lemma drop_frame:
  "len = 16 + length body \<Longrightarrow> drop len (frame len msgtype flags sq p body @ rest) = rest"
  by simp

section \<open>One frame\<close>

lemma rx_data_Nil: "rx_data N nlpkt [] msgs = Some (Next [] msgs)"
  by (subst rx_data.simps) simp

lemma rx_data_step:
  "data \<noteq> [] \<Longrightarrow>
   rx_data N nlpkt data msgs =
     (case rx_frame N nlpkt data msgs of
        Next data' msgs' \<Rightarrow> rx_data N nlpkt data' msgs'
      | Return m \<Rightarrow> Some (Return m)
      | Raise e \<Rightarrow> Some (Raise e))"
  by (subst rx_data.simps) simp

lemma unpack_header_nonempty: "unpack_header (take header_LEN data) = Inr h \<Longrightarrow> data \<noteq> []"
  by (auto simp: unpack_header_def header_LEN_def split: if_splits)

lemma unpack_header_short: "length data < header_LEN \<Longrightarrow> unpack_header (take header_LEN data) = Inl StructError"
  by (simp add: unpack_header_def header_LEN_def)

lemma unpack_header_long: "header_LEN \<le> length data \<Longrightarrow> \<exists>h. unpack_header (take header_LEN data) = Inr h"
  by (simp add: unpack_header_def header_LEN_def)

lemma rx_frame_short: "length data < header_LEN \<Longrightarrow> rx_frame N nlpkt data msgs = Raise StructError"
  using unpack_header_short [of data] by (simp add: rx_frame_def)

lemma rx_frame_unnamed:
  "unpack_header (take header_LEN data) = Inr (len, msgtype, flags, sq, p) \<Longrightarrow>
   type_to_string N msgtype = None \<Longrightarrow>
   rx_frame N nlpkt data msgs = Raise (KeyError msgtype)"
  by (simp add: rx_frame_def)

lemma rx_frame_foreign:
  "unpack_header (take header_LEN data) = Inr (len, msgtype, flags, sq, p) \<Longrightarrow>
   type_to_string N msgtype = Some name \<Longrightarrow>
   p \<noteq> req_pid nlpkt \<or> sq \<noteq> req_seq nlpkt \<Longrightarrow>
   rx_frame N nlpkt data msgs = Next (drop len data) msgs"
  by (auto simp: rx_frame_def)

lemma rx_frame_done:
  "unpack_header (take header_LEN data) = Inr (len, NLMSG_DONE N, flags, req_seq nlpkt, req_pid nlpkt) \<Longrightarrow>
   type_to_string N (NLMSG_DONE N) = Some name \<Longrightarrow>
   rx_frame N nlpkt data msgs = Return msgs"
  by (simp add: rx_frame_def)

lemma rx_frame_error:
  "unpack_header (take header_LEN data) = Inr (len, NLMSG_ERROR N, flags, req_seq nlpkt, req_pid nlpkt) \<Longrightarrow>
   type_to_string N (NLMSG_ERROR N) = Some name \<Longrightarrow>
   NLMSG_ERROR N \<noteq> NLMSG_DONE N \<Longrightarrow>
   header_LEN + 4 \<le> length data \<Longrightarrow>
   decode_packet N Error (NLMSG_ERROR N) len flags (req_seq nlpkt) (req_pid nlpkt) data = Inr obj \<Longrightarrow>
   rx_frame N nlpkt data msgs =
     (if \<bar>sint32_le (take 4 (drop header_LEN data))\<bar> = 0 then Return msgs
      else if \<bar>sint32_le (take 4 (drop header_LEN data))\<bar> = NLE_NOADDR N then Raise NetlinkNoAddressError
      else Raise NetlinkError)"
  by (simp add: rx_frame_def unpack_i_def)

lemma rx_frame_data:
  "unpack_header (take header_LEN data) = Inr (len, msgtype, flags, req_seq nlpkt, req_pid nlpkt) \<Longrightarrow>
   type_to_string N msgtype = Some name \<Longrightarrow>
   msgtype \<noteq> NLMSG_DONE N \<Longrightarrow> msgtype \<noteq> NLMSG_ERROR N \<Longrightarrow>
   frame_class N msgtype = Some cls \<Longrightarrow>
   decode_packet N cls msgtype len flags (req_seq nlpkt) (req_pid nlpkt) data = Inr obj \<Longrightarrow>
   rx_frame N nlpkt data msgs = Next (drop len data) (msgs @ [obj])"
  by (simp add: rx_frame_def)

lemma rx_frame_unknown:
  "unpack_header (take header_LEN data) = Inr (len, msgtype, flags, req_seq nlpkt, req_pid nlpkt) \<Longrightarrow>
   msgtype \<noteq> NLMSG_DONE N \<Longrightarrow> msgtype \<noteq> NLMSG_ERROR N \<Longrightarrow>
   frame_class N msgtype = None \<Longrightarrow>
   rx_frame N nlpkt data msgs =
     Raise (case type_to_string N msgtype of None \<Rightarrow> KeyError msgtype | Some name \<Rightarrow> UnknownMessageType msgtype)"
  by (simp add: rx_frame_def split: option.splits)

lemma sample_request_simps [simp]:
  "req_seq sample_request = 5" "req_pid sample_request = 7" "req_message sample_request \<noteq> []"
  by (simp_all add: sample_request_def frame_def le32_def)

lemma linux_consts [simp]:
  "NLMSG_DONE linux_nlpacket = 3" "NLMSG_ERROR linux_nlpacket = 2" "NLE_NOADDR linux_nlpacket = 19"
  "type_to_string linux_nlpacket = linux_type_to_string"
  "decode_packet linux_nlpacket = keep_frame"
  by (simp_all add: linux_nlpacket_def)

lemma linux_frame_class:
  "frame_class linux_nlpacket t =
     (if t = 16 \<or> t = 17 then Some Link
      else if t = 20 \<or> t = 21 then Some Address
      else if t = 28 \<or> t = 29 then Some Neighbor
      else if t = 24 \<or> t = 25 then Some Route
      else None)"
  by (simp add: frame_class_def linux_nlpacket_def)

lemma unpack_header_frame_only:
  assumes "len < 4294967296" "msgtype < 65536" "flags < 65536" "sq < 4294967296" "p < 4294967296"
  shows "unpack_header (take header_LEN (frame len msgtype flags sq p body))
           = Inr (len, msgtype, flags, sq, p)"
  using unpack_header_frame [OF assms, of body "[]"] by simp

lemma unpack_header_append:
  assumes "unpack_header (take header_LEN f) = Inr h"
  shows "unpack_header (take header_LEN (f @ rest)) = Inr h"
proof -
  have "header_LEN \<le> length f"
    using assms by (auto simp: unpack_header_def header_LEN_def split: if_splits)
  then have "take header_LEN (f @ rest) = take header_LEN f" by simp
  then show ?thesis using assms by (simp only:)
qed

lemma wait_loop_Readable:
  "data \<noteq> [] \<Longrightarrow>
   wait_loop N nlpkt False n msgs (Readable data # evs) =
     (case rx_data N nlpkt data msgs of
        None \<Rightarrow> None
      | Some (Next data' msgs') \<Rightarrow> wait_loop N nlpkt False n msgs' evs
      | Some (Return m) \<Rightarrow> Some (Returned m)
      | Some (Raise e) \<Rightarrow> Some (Raised e))"
  by simp

section \<open>Error frames\<close>

lemma rx_data_error:
  assumes "unpack_header (take header_LEN data) = Inr (len, NLMSG_ERROR N, flags, req_seq nlpkt, req_pid nlpkt)"
    and "type_to_string N (NLMSG_ERROR N) = Some name"
    and "NLMSG_ERROR N \<noteq> NLMSG_DONE N"
    and "header_LEN + 4 \<le> length data"
    and "decode_packet N Error (NLMSG_ERROR N) len flags (req_seq nlpkt) (req_pid nlpkt) data = Inr obj"
  shows "rx_data N nlpkt data msgs =
     Some (if \<bar>sint32_le (take 4 (drop header_LEN data))\<bar> = 0 then Return msgs
           else if \<bar>sint32_le (take 4 (drop header_LEN data))\<bar> = NLE_NOADDR N then Raise NetlinkNoAddressError
           else Raise NetlinkError)"
proof -
  have ne: "data \<noteq> []" using assms(1) by (rule unpack_header_nonempty)
  show ?thesis
    unfolding rx_data_step [OF ne] rx_frame_error [OF assms] by simp
qed

lemma sint32_le_neg19: "sint32_le [0xED, 0xFF, 0xFF, 0xFF] = - 19"
  by (simp add: sint32_le_def)

lemma sint32_le_0: "sint32_le [0, 0, 0, 0] = 0"
  by (simp add: sint32_le_def)

lemma sint32_le_neg17: "sint32_le [0xEF, 0xFF, 0xFF, 0xFF] = - 17"
  by (simp add: sint32_le_def)

section \<open>Dumps\<close>

lemma rx_data_data_frames:
  "data_frames N nlpkt fs rest objs \<Longrightarrow>
   rx_data N nlpkt (concat fs @ rest) msgs = rx_data N nlpkt rest (msgs @ objs)"
proof (induction fs arbitrary: objs msgs)
  case Nil
  then show ?case by simp
next
  case (Cons f fs)
  from Cons.prems obtain obj objs' where
    objs: "objs = obj # objs'" and
    f: "data_frame N nlpkt f (concat fs @ rest) obj" and
    fs: "data_frames N nlpkt fs rest objs'"
    by (cases objs) auto
  from f obtain len msgtype flags sq p where
    h: "unpack_header (take header_LEN f) = Inr (len, msgtype, flags, sq, p)"
    by (cases "unpack_header (take header_LEN f)") (auto simp: data_frame_def)
  from f h obtain name cls where
    len: "len = length f" and sq: "sq = req_seq nlpkt" and p: "p = req_pid nlpkt" and
    nm: "type_to_string N msgtype = Some name" and
    nd: "msgtype \<noteq> NLMSG_DONE N" and ne: "msgtype \<noteq> NLMSG_ERROR N" and
    cls: "frame_class N msgtype = Some cls" and
    dec: "decode_packet N cls msgtype len flags sq p (f @ concat fs @ rest) = Inr obj"
    by (cases "frame_class N msgtype") (auto simp: data_frame_def)
  define data where "data = f @ concat fs @ rest"
  have h': "unpack_header (take header_LEN data) = Inr (len, msgtype, flags, req_seq nlpkt, req_pid nlpkt)"
    using unpack_header_append [OF h, of "concat fs @ rest"] by (simp add: data_def sq p)
  have ne0: "data \<noteq> []" using h' by (rule unpack_header_nonempty)
  have dec': "decode_packet N cls msgtype len flags (req_seq nlpkt) (req_pid nlpkt) data = Inr obj"
    using dec by (simp add: data_def sq p)
  have step: "rx_frame N nlpkt data msgs = Next (drop len data) (msgs @ [obj])"
    by (rule rx_frame_data [OF h' nm nd ne cls dec'])
  have dr: "drop len data = concat fs @ rest"
    by (simp add: data_def len)
  have "rx_data N nlpkt (concat (f # fs) @ rest) msgs = rx_data N nlpkt data msgs"
    by (simp add: data_def)
  also have "\<dots> = rx_data N nlpkt (concat fs @ rest) (msgs @ [obj])"
    unfolding rx_data_step [OF ne0] step dr by simp
  also have "\<dots> = rx_data N nlpkt rest ((msgs @ [obj]) @ objs')"
    by (rule Cons.IH [OF fs])
  finally show ?case by (simp add: objs)
qed

lemma data_frames_length: "data_frames N nlpkt fs rest objs \<Longrightarrow> length objs = length fs"
  by (induction fs arbitrary: objs) (auto split: list.splits)

lemma data_frames_nonempty:
  "data_frames N nlpkt fs rest objs \<Longrightarrow> fs \<noteq> [] \<Longrightarrow> concat fs \<noteq> []"
proof (cases fs)
  case Nil
  assume "fs \<noteq> []" with Nil show ?thesis by simp
next
  case (Cons f fs')
  assume "data_frames N nlpkt fs rest objs"
  with Cons obtain obj where "data_frame N nlpkt f (concat fs' @ rest) obj"
    by (cases objs) auto
  then have "f \<noteq> []"
    by (cases "unpack_header (take header_LEN f)")
       (auto simp: data_frame_def dest: unpack_header_nonempty)
  with Cons show ?thesis by simp
qed

lemma rx_data_done:
  assumes "done_frame N nlpkt d"
  shows "rx_data N nlpkt (d @ rest) msgs = Some (Return msgs)"
proof -
  from assms obtain len msgtype flags sq p where
    h: "unpack_header (take header_LEN d) = Inr (len, msgtype, flags, sq, p)"
    by (cases "unpack_header (take header_LEN d)") (auto simp: done_frame_def)
  from assms h obtain name where
    sq: "sq = req_seq nlpkt" and p: "p = req_pid nlpkt" and t: "msgtype = NLMSG_DONE N" and
    nm: "type_to_string N (NLMSG_DONE N) = Some name"
    by (auto simp: done_frame_def)
  have h': "unpack_header (take header_LEN (d @ rest))
              = Inr (len, NLMSG_DONE N, flags, req_seq nlpkt, req_pid nlpkt)"
    using unpack_header_append [OF h, of rest] by (simp add: sq p t)
  have ne0: "d @ rest \<noteq> []" using h' by (rule unpack_header_nonempty)
  show ?thesis
    unfolding rx_data_step [OF ne0] rx_frame_done [OF h' nm] by simp
qed

lemma wait_loop_chunks:
  "list_all2 (\<lambda>fs objs. fs \<noteq> [] \<and> data_frames N nlpkt fs [] objs) fss objss \<Longrightarrow>
   wait_loop N nlpkt False n msgs (map (\<lambda>fs. Readable (concat fs)) fss @ evs)
     = wait_loop N nlpkt False n (msgs @ concat objss) evs"
proof (induction fss objss arbitrary: msgs rule: list_all2_induct)
  case Nil
  show ?case by simp
next
  case (Cons fs fss objs objss)
  have ne: "concat fs \<noteq> []"
    using Cons.hyps(1) data_frames_nonempty by blast
  have rx: "rx_data N nlpkt (concat fs) msgs = Some (Next [] (msgs @ objs))"
    using rx_data_data_frames [of N nlpkt fs "[]" objs msgs] Cons.hyps(1)
    by (simp add: rx_data_Nil)
  have "wait_loop N nlpkt False n msgs (Readable (concat fs) # (map (\<lambda>fs. Readable (concat fs)) fss @ evs))
          = wait_loop N nlpkt False n (msgs @ objs) (map (\<lambda>fs. Readable (concat fs)) fss @ evs)"
    unfolding wait_loop_Readable [OF ne] rx by simp
  then have "wait_loop N nlpkt False n msgs (map (\<lambda>fs. Readable (concat fs)) (fs # fss) @ evs)
          = wait_loop N nlpkt False n (msgs @ objs) (map (\<lambda>fs. Readable (concat fs)) fss @ evs)"
    by (simp only: list.map append_Cons)
  also have "\<dots> = wait_loop N nlpkt False n ((msgs @ objs) @ concat objss) evs"
    by (rule Cons.IH)
  finally show ?case by simp
qed

lemma wait_loop_after_data_frames:
  assumes "list_all2 (\<lambda>fs objs. fs \<noteq> [] \<and> data_frames N nlpkt fs [] objs) fss objss"
    and "data_frames N nlpkt fs data objs"
    and "data \<noteq> []"
  shows "wait_loop N nlpkt False n msgs
           (map (\<lambda>fs. Readable (concat fs)) fss @ Readable (concat fs @ data) # evs)
         = (case rx_data N nlpkt data (msgs @ concat objss @ objs) of
              None \<Rightarrow> None
            | Some (Next data' msgs') \<Rightarrow> wait_loop N nlpkt False n msgs' evs
            | Some (Return r) \<Rightarrow> Some (Returned r)
            | Some (Raise e) \<Rightarrow> Some (Raised e))"
proof -
  have ne: "concat fs @ data \<noteq> []" using assms(3) by simp
  have rx: "rx_data N nlpkt (concat fs @ data) (msgs @ concat objss)
              = rx_data N nlpkt data (msgs @ concat objss @ objs)"
    using rx_data_data_frames [OF assms(2), of "msgs @ concat objss"] by simp
  have "wait_loop N nlpkt False n msgs
           (map (\<lambda>fs. Readable (concat fs)) fss @ Readable (concat fs @ data) # evs)
        = wait_loop N nlpkt False n (msgs @ concat objss) (Readable (concat fs @ data) # evs)"
    by (rule wait_loop_chunks [OF assms(1)])
  also have "\<dots> = (case rx_data N nlpkt data (msgs @ concat objss @ objs) of
              None \<Rightarrow> None
            | Some (Next data' msgs') \<Rightarrow> wait_loop N nlpkt False n msgs' evs
            | Some (Return r) \<Rightarrow> Some (Returned r)
            | Some (Raise e) \<Rightarrow> Some (Raised e))"
    unfolding wait_loop_Readable [OF ne] rx ..
  finally show ?thesis .
qed

lemma get_response_wait_loop:
  "req_message nlpkt \<noteq> [] \<Longrightarrow> \<not> shutdown_flag m \<Longrightarrow>
   fst (tx_nlpacket_get_response N m nlpkt evs) = wait_loop N nlpkt False 0 [] evs"
  by (simp add: tx_nlpacket_get_response_def)

text \<open>
  C3. For a built request and no shutdown, when the socket delivers buffers of whole
  data frames of the request and then a buffer with further data frames and the Done
  frame, the call returns the decoded objects of all the data frames, as many as there
  are frames and in the order of the stream, and stops at the Done frame: what follows
  it in the buffer or on the socket is not read.
\<close>

theorem dump_returns_decoded_frames_in_order:
  assumes "req_message nlpkt \<noteq> []" and "\<not> shutdown_flag m"
    and "list_all2 (\<lambda>fs objs. fs \<noteq> [] \<and> data_frames N nlpkt fs [] objs) fss objss"
    and "data_frames N nlpkt fs (d @ rest) objs"
    and "done_frame N nlpkt d"
  shows "fst (tx_nlpacket_get_response N m nlpkt
                (map (\<lambda>fs. Readable (concat fs)) fss @ Readable (concat fs @ d @ rest) # evs))
           = Some (Returned (concat objss @ objs))
         \<and> length (concat objss @ objs) = length (concat fss @ fs)"
proof -
  have "d \<noteq> []"
    using assms(5)
    by (cases "unpack_header (take header_LEN d)")
       (auto simp: done_frame_def dest: unpack_header_nonempty)
  then have ne: "concat fs @ d @ rest \<noteq> []" by simp
  have rx: "rx_data N nlpkt (concat fs @ d @ rest) (concat objss) = Some (Return (concat objss @ objs))"
    unfolding rx_data_data_frames [OF assms(4)] by (rule rx_data_done [OF assms(5)])
  have "wait_loop N nlpkt False 0 []
          (map (\<lambda>fs. Readable (concat fs)) fss @ Readable (concat fs @ d @ rest) # evs)
        = wait_loop N nlpkt False 0 ([] @ concat objss) (Readable (concat fs @ d @ rest) # evs)"
    by (rule wait_loop_chunks [OF assms(3)])
  also have "\<dots> = Some (Returned (concat objss @ objs))"
    unfolding append_Nil wait_loop_Readable [OF ne] rx by simp
  finally have a: "fst (tx_nlpacket_get_response N m nlpkt
                (map (\<lambda>fs. Readable (concat fs)) fss @ Readable (concat fs @ d @ rest) # evs))
           = Some (Returned (concat objss @ objs))"
    using assms(1,2) by (simp add: tx_nlpacket_get_response_def)
  have "list_all2 (\<lambda>fs objs. length objs = length fs) fss objss"
    using assms(3) by (rule list_all2_mono) (auto dest: data_frames_length)
  then have "length (concat objss) = length (concat fss)"
    by (induction rule: list_all2_induct) simp_all
  then have b: "length (concat objss @ objs) = length (concat fss @ fs)"
    using data_frames_length [OF assms(4)] by simp
  from a b show ?thesis by blast
qed

section \<open>Concrete frames\<close>

lemma linux_data_frame:
  assumes "len = 16 + length body" "len < 4294967296" "t < 65536" "fl < 65536"
    and "linux_type_to_string t = Some name" "t \<noteq> 3" "t \<noteq> 2"
    and "frame_class linux_nlpacket t = Some cls"
  shows "data_frame linux_nlpacket sample_request (frame len t fl 5 7 body) rest
           (cls, frame len t fl 5 7 body)"
proof -
  have h: "unpack_header (take header_LEN (frame len t fl 5 7 body)) = Inr (len, t, fl, 5, 7)"
    using assms(2,3,4) by (simp add: unpack_header_frame_only)
  have k: "keep_frame cls t len fl 5 7 (frame len t fl 5 7 body @ rest) = Inr (cls, frame len t fl 5 7 body)"
    using assms(1) by (simp add: keep_frame_def)
  show ?thesis
    unfolding data_frame_def h using assms k by simp
qed

lemma link_frame_ok: "data_frame linux_nlpacket sample_request link_frame rest (Link, link_frame)"
  unfolding link_frame_def
  by (rule linux_data_frame [where name = "''RTM_NEWLINK''"])
     (simp_all add: linux_type_to_string_def linux_frame_class)

lemma addr_frame_ok: "data_frame linux_nlpacket sample_request addr_frame rest (Address, addr_frame)"
  unfolding addr_frame_def
  by (rule linux_data_frame [where name = "''RTM_NEWADDR''"])
     (simp_all add: linux_type_to_string_def linux_frame_class)

lemma done_frame_ok: "done_frame linux_nlpacket sample_request done_frame_5_7"
proof -
  have h: "unpack_header (take header_LEN done_frame_5_7) = Inr (16, 3, 2, 5, 7)"
    unfolding done_frame_5_7_def by (simp add: unpack_header_frame_only)
  show ?thesis
    unfolding done_frame_def h by (simp add: linux_type_to_string_def)
qed

lemma frames_nonempty [simp]: "link_frame \<noteq> []" "addr_frame \<noteq> []" "done_frame_5_7 \<noteq> []"
  by (simp_all add: link_frame_def addr_frame_def done_frame_5_7_def frame_def le32_def)

lemma get_response_built:
  "fst (tx_nlpacket_get_response N (NetlinkManager_init p) sample_request evs)
     = wait_loop N sample_request False 0 [] evs"
  by (simp add: tx_nlpacket_get_response_def NetlinkManager_init_def)

theorem dump_returns_decoded_frames_in_order_witness:
  "fst (tx_nlpacket_get_response linux_nlpacket (NetlinkManager_init 7) sample_request
          [Readable link_frame, Readable (addr_frame @ done_frame_5_7)])
     = Some (Returned [(Link, link_frame), (Address, addr_frame)])"
proof -
  have m: "req_message sample_request \<noteq> []" by simp
  have s: "\<not> shutdown_flag (NetlinkManager_init 7)" by (simp add: NetlinkManager_init_def)
  have c: "list_all2 (\<lambda>fs objs. fs \<noteq> [] \<and> data_frames linux_nlpacket sample_request fs [] objs)
             [[link_frame]] [[(Link, link_frame)]]"
    by (simp add: link_frame_ok)
  have l: "data_frames linux_nlpacket sample_request [addr_frame] (done_frame_5_7 @ [])
             [(Address, addr_frame)]"
    by (simp add: addr_frame_ok)
  from dump_returns_decoded_frames_in_order [OF m s c l done_frame_ok, of "[]"]
  show ?thesis by simp
qed

section \<open>Error frames in a call\<close>

text \<open>
  C2. For a built request and no shutdown, when the socket delivers buffers of whole
  data frames of the request and then a buffer in which, after further data frames,
  stands an error frame of the request (its header unpacks with the request's pid and
  sequence and type \<^verbatim>\<open>NLMSG_ERROR\<close>, its first four body bytes are in the buffer, the
  type has a name and the \<^verbatim>\<open>Error\<close> decoder accepts it), the call ends according to
  the absolute value of the signed 32-bit code in those bytes: 0 returns the accumulated
  list, \<^verbatim>\<open>NLE_NOADDR\<close> raises \<^verbatim>\<open>NetlinkNoAddressError\<close>, every other value raises
  \<^verbatim>\<open>NetlinkError\<close>. The same holds from any state of the wait loop.
\<close>

theorem error_frame_code_decides:
  assumes "req_message nlpkt \<noteq> []" and "\<not> shutdown_flag m"
    and "list_all2 (\<lambda>fs objs. fs \<noteq> [] \<and> data_frames N nlpkt fs [] objs) fss objss"
    and "data_frames N nlpkt fs data objs"
    and "unpack_header (take header_LEN data)
           = Inr (len, NLMSG_ERROR N, flags, req_seq nlpkt, req_pid nlpkt)"
    and "type_to_string N (NLMSG_ERROR N) = Some name"
    and "NLMSG_ERROR N \<noteq> NLMSG_DONE N"
    and "header_LEN + 4 \<le> length data"
    and "decode_packet N Error (NLMSG_ERROR N) len flags (req_seq nlpkt) (req_pid nlpkt) data = Inr obj"
  shows "fst (tx_nlpacket_get_response N m nlpkt
                (map (\<lambda>fs. Readable (concat fs)) fss @ Readable (concat fs @ data) # evs))
           = Some (if \<bar>sint32_le (take 4 (drop header_LEN data))\<bar> = 0
                   then Returned (concat objss @ objs)
                   else if \<bar>sint32_le (take 4 (drop header_LEN data))\<bar> = NLE_NOADDR N
                   then Raised NetlinkNoAddressError
                   else Raised NetlinkError)
         \<and> wait_loop N nlpkt False n msgs
                (map (\<lambda>fs. Readable (concat fs)) fss @ Readable (concat fs @ data) # evs)
           = Some (if \<bar>sint32_le (take 4 (drop header_LEN data))\<bar> = 0
                   then Returned (msgs @ concat objss @ objs)
                   else if \<bar>sint32_le (take 4 (drop header_LEN data))\<bar> = NLE_NOADDR N
                   then Raised NetlinkNoAddressError
                   else Raised NetlinkError)"
proof -
  have ne: "data \<noteq> []" using assms(5) by (rule unpack_header_nonempty)
  have w: "wait_loop N nlpkt False k ms
                (map (\<lambda>fs. Readable (concat fs)) fss @ Readable (concat fs @ data) # evs)
           = Some (if \<bar>sint32_le (take 4 (drop header_LEN data))\<bar> = 0
                   then Returned (ms @ concat objss @ objs)
                   else if \<bar>sint32_le (take 4 (drop header_LEN data))\<bar> = NLE_NOADDR N
                   then Raised NetlinkNoAddressError
                   else Raised NetlinkError)" for k ms
    unfolding wait_loop_after_data_frames [OF assms(3,4) ne]
      rx_data_error [OF assms(5,6,7,8,9)]
    by simp
  have "fst (tx_nlpacket_get_response N m nlpkt
                (map (\<lambda>fs. Readable (concat fs)) fss @ Readable (concat fs @ data) # evs))
         = wait_loop N nlpkt False 0 []
                (map (\<lambda>fs. Readable (concat fs)) fss @ Readable (concat fs @ data) # evs)"
    by (rule get_response_wait_loop [OF assms(1,2)])
  then show ?thesis using w [of 0 "[]"] w [of n msgs] by simp
qed

theorem error_frame_code_decides_witness:
  "fst (tx_nlpacket_get_response linux_nlpacket (NetlinkManager_init 7) sample_request
          [Readable link_frame, Readable (addr_frame @ frame 20 2 0 5 7 [0xED, 0xFF, 0xFF, 0xFF])])
     = Some (Raised NetlinkNoAddressError)
   \<and> fst (tx_nlpacket_get_response linux_nlpacket (NetlinkManager_init 7) sample_request
          [Readable link_frame, Readable (addr_frame @ frame 20 2 0 5 7 [0, 0, 0, 0])])
     = Some (Returned [(Link, link_frame), (Address, addr_frame)])
   \<and> fst (tx_nlpacket_get_response linux_nlpacket (NetlinkManager_init 7) sample_request
          [Readable link_frame, Readable (addr_frame @ frame 20 2 0 5 7 [0xEF, 0xFF, 0xFF, 0xFF])])
     = Some (Raised NetlinkError)"
proof -
  have gen: "fst (tx_nlpacket_get_response linux_nlpacket (NetlinkManager_init 7) sample_request
          [Readable link_frame, Readable (addr_frame @ frame 20 2 0 5 7 [a, b, c, d])])
     = Some (if \<bar>sint32_le [a, b, c, d]\<bar> = 0 then Returned [(Link, link_frame), (Address, addr_frame)]
             else if \<bar>sint32_le [a, b, c, d]\<bar> = 19 then Raised NetlinkNoAddressError
             else Raised NetlinkError)" for a b c d
  proof -
    have m: "req_message sample_request \<noteq> []" by simp
    have s: "\<not> shutdown_flag (NetlinkManager_init 7)" by (simp add: NetlinkManager_init_def)
    have ch: "list_all2 (\<lambda>fs objs. fs \<noteq> [] \<and> data_frames linux_nlpacket sample_request fs [] objs)
               [[link_frame]] [[(Link, link_frame)]]"
      by (simp add: link_frame_ok)
    have l: "data_frames linux_nlpacket sample_request [addr_frame] (frame 20 2 0 5 7 [a, b, c, d])
               [(Address, addr_frame)]"
      by (simp add: addr_frame_ok)
    have h: "unpack_header (take header_LEN (frame 20 2 0 5 7 [a, b, c, d]))
      = Inr (20, NLMSG_ERROR linux_nlpacket, 0, req_seq sample_request, req_pid sample_request)"
      by (simp add: unpack_header_frame_only)
    have nm: "type_to_string linux_nlpacket (NLMSG_ERROR linux_nlpacket) = Some ''NLMSG_ERROR''"
      by (simp add: linux_type_to_string_def)
    have ne: "NLMSG_ERROR linux_nlpacket \<noteq> NLMSG_DONE linux_nlpacket" by simp
    have ln: "header_LEN + 4 \<le> length (frame 20 2 0 5 7 [a, b, c, d])"
      by (simp add: header_LEN_def)
    have dc: "decode_packet linux_nlpacket Error (NLMSG_ERROR linux_nlpacket) 20 0
        (req_seq sample_request) (req_pid sample_request) (frame 20 2 0 5 7 [a, b, c, d])
          = Inr (Error, frame 20 2 0 5 7 [a, b, c, d])"
      by (simp add: keep_frame_def)
    have body: "take 4 (drop header_LEN (frame 20 2 0 5 7 [a, b, c, d])) = [a, b, c, d]"
      by (simp add: header_LEN_def frame_def)
    from error_frame_code_decides [OF m s ch l h nm ne ln dc, where evs = "[]" and n = 0 and msgs = "[]"]
    show ?thesis unfolding body by simp
  qed
  show ?thesis
    unfolding gen sint32_le_neg19 sint32_le_0 sint32_le_neg17 by simp
qed

section \<open>Foreign frames\<close>

lemma rx_data_foreign:
  assumes "unpack_header (take header_LEN data) = Inr (len, msgtype, flags, sq, p)"
    and "type_to_string N msgtype = Some name"
    and "p \<noteq> req_pid nlpkt \<or> sq \<noteq> req_seq nlpkt"
  shows "rx_data N nlpkt data msgs = rx_data N nlpkt (drop len data) msgs"
proof -
  have ne: "data \<noteq> []" using assms(1) by (rule unpack_header_nonempty)
  show ?thesis
    unfolding rx_data_step [OF ne] rx_frame_foreign [OF assms] by simp
qed

lemma rx_data_unnamed:
  assumes "unpack_header (take header_LEN data) = Inr (len, msgtype, flags, sq, p)"
    and "type_to_string N msgtype = None"
  shows "rx_data N nlpkt data msgs = Some (Raise (KeyError msgtype))"
proof -
  have ne: "data \<noteq> []" using assms(1) by (rule unpack_header_nonempty)
  show ?thesis
    unfolding rx_data_step [OF ne] rx_frame_unnamed [OF assms] by simp
qed

text \<open>A foreign frame whose length field is 0 is never passed: the loop has no end.\<close>

lemma rx_data_zero_length_never_returns:
  fixes N :: "'o nlpacket"
  assumes h: "unpack_header (take header_LEN data) = Inr (0, msgtype, flags, sq, p)"
    and nm: "type_to_string N msgtype = Some name"
    and fo: "p \<noteq> req_pid nlpkt \<or> sq \<noteq> req_seq nlpkt"
  shows "rx_data N nlpkt data msgs = None"
proof -
  have ne: "data \<noteq> []" using h by (rule unpack_header_nonempty)
  have fr: "rx_frame N nlpkt data ms = Next data ms" for ms
    using rx_frame_foreign [OF h nm fo, of ms] by simp
  have False if s: "rx_data N nlpkt data msgs = Some y" for y
  proof -
    have "\<not> (N = N \<and> nlpkt = nlpkt \<and> data = data)"
    proof (rule rx_data.raw_induct
        [where P = "\<lambda>N' r d ms y. \<not> (N' = N \<and> r = nlpkt \<and> d = data)", OF _ s])
      fix rx :: "'o nlpacket \<Rightarrow> nlrequest \<Rightarrow> bytes \<Rightarrow> 'o list \<Rightarrow> 'o step option"
        and N' r d ms y
      assume ih: "\<And>N' r d ms y. rx N' r d ms = Some y \<Longrightarrow> \<not> (N' = N \<and> r = nlpkt \<and> d = data)"
        and body: "(if d = [] then Some (Next [] ms)
                    else case rx_frame N' r d ms of
                           Next data' msgs' \<Rightarrow> rx N' r data' msgs'
                         | Return m \<Rightarrow> Some (Return m)
                         | Raise e \<Rightarrow> Some (Raise e)) = Some y"
      show "\<not> (N' = N \<and> r = nlpkt \<and> d = data)"
      proof
        assume eq: "N' = N \<and> r = nlpkt \<and> d = data"
        with body ne fr have "rx N nlpkt data ms = Some y" by simp
        from ih [OF this] show False by simp
      qed
    qed
    then show False by simp
  qed
  then show ?thesis by (cases "rx_data N nlpkt data msgs") auto
qed

text \<open>
  C1, on the code: a buffer with a data frame of the request, a frame of another pid
  (9999) whose type 80 has no entry in \<^verbatim>\<open>type_to_string\<close>, and the Done frame. The
  foreign frame is not discarded: the lookup of its type's name for the debug string,
  made before the pid is compared, raises \<^verbatim>\<open>KeyError\<close>.
\<close>

theorem foreign_frame_of_unnamed_type_raises:
  "linux_type_to_string 80 = None
   \<and> fst (tx_nlpacket_get_response linux_nlpacket (NetlinkManager_init 7) sample_request
          [Readable (link_frame @ frame 16 80 0 5 9999 [] @ done_frame_5_7)])
       = Some (Raised (KeyError 80))"
proof -
  have n: "linux_type_to_string 80 = None" by (simp add: linux_type_to_string_def)
  have fr: "data_frames linux_nlpacket sample_request [link_frame]
              (frame 16 80 0 5 9999 [] @ done_frame_5_7) [(Link, link_frame)]"
    by (simp add: link_frame_ok)
  have h: "unpack_header (take header_LEN (frame 16 80 0 5 9999 [] @ done_frame_5_7))
             = Inr (16, 80, 0, 5, 9999)"
    by (rule unpack_header_frame) simp_all
  have rx: "rx_data linux_nlpacket sample_request
              (link_frame @ frame 16 80 0 5 9999 [] @ done_frame_5_7) []
            = Some (Raise (KeyError 80))"
    using rx_data_data_frames [OF fr, of "[]"] rx_data_unnamed [OF h, of linux_nlpacket] n
    by simp
  have ne: "link_frame @ frame 16 80 0 5 9999 [] @ done_frame_5_7 \<noteq> []" by simp
  have "wait_loop linux_nlpacket sample_request False 0 []
          [Readable (link_frame @ frame 16 80 0 5 9999 [] @ done_frame_5_7)]
        = Some (Raised (KeyError 80))"
    unfolding wait_loop_Readable [OF ne] rx by simp
  with n show ?thesis by (simp only: get_response_built simp_thms)
qed

section \<open>Unknown message types\<close>

text \<open>
  C9. A frame of the request (it carries the request's pid and sequence; frames of other
  pids or sequences are dropped before the type is looked at) whose type is neither Done
  nor Error nor one of the eight data types ends the call with an exception that names
  the type: \<^verbatim>\<open>KeyError\<close> when \<^verbatim>\<open>type_to_string\<close> has no entry for it, the
  "RXed unknown netlink message type" exception otherwise. It is never appended or
  skipped, wherever it stands in the stream after whole data frames.
\<close>

theorem unknown_type_of_matching_frame_raises:
  assumes "unpack_header (take header_LEN data) = Inr (len, msgtype, flags, req_seq nlpkt, req_pid nlpkt)"
    and "msgtype \<noteq> NLMSG_DONE N" and "msgtype \<noteq> NLMSG_ERROR N"
    and "frame_class N msgtype = None"
  shows "wait_loop N nlpkt False n msgs (Readable data # evs) =
           Some (Raised (case type_to_string N msgtype of
                           None \<Rightarrow> KeyError msgtype
                         | Some name \<Rightarrow> UnknownMessageType msgtype))
         \<and> (req_message nlpkt \<noteq> [] \<and> \<not> shutdown_flag m
              \<and> list_all2 (\<lambda>fs objs. fs \<noteq> [] \<and> data_frames N nlpkt fs [] objs) fss objss
              \<and> data_frames N nlpkt fs data objs \<longrightarrow>
            fst (tx_nlpacket_get_response N m nlpkt
                   (map (\<lambda>fs. Readable (concat fs)) fss @ Readable (concat fs @ data) # evs))
              = Some (Raised (case type_to_string N msgtype of
                                None \<Rightarrow> KeyError msgtype
                              | Some name \<Rightarrow> UnknownMessageType msgtype)))"
proof -
  have ne: "data \<noteq> []" using assms(1) by (rule unpack_header_nonempty)
  have rx: "rx_data N nlpkt data ms =
              Some (Raise (case type_to_string N msgtype of
                             None \<Rightarrow> KeyError msgtype
                           | Some name \<Rightarrow> UnknownMessageType msgtype))" for ms
    unfolding rx_data_step [OF ne] rx_frame_unknown [OF assms] by simp
  have a: "wait_loop N nlpkt False n msgs (Readable data # evs) =
           Some (Raised (case type_to_string N msgtype of
                           None \<Rightarrow> KeyError msgtype
                         | Some name \<Rightarrow> UnknownMessageType msgtype))"
    unfolding wait_loop_Readable [OF ne] rx by simp
  have b: "fst (tx_nlpacket_get_response N m nlpkt
                   (map (\<lambda>fs. Readable (concat fs)) fss @ Readable (concat fs @ data) # evs))
              = Some (Raised (case type_to_string N msgtype of
                                None \<Rightarrow> KeyError msgtype
                              | Some name \<Rightarrow> UnknownMessageType msgtype))"
    if "req_message nlpkt \<noteq> []" "\<not> shutdown_flag m"
       "list_all2 (\<lambda>fs objs. fs \<noteq> [] \<and> data_frames N nlpkt fs [] objs) fss objss"
       "data_frames N nlpkt fs data objs"
    unfolding get_response_wait_loop [OF that(1,2)]
      wait_loop_after_data_frames [OF that(3,4) ne] rx
    by simp
  from a b show ?thesis by blast
qed

theorem unknown_type_of_matching_frame_raises_witness:
  "wait_loop linux_nlpacket sample_request False 0 [] [Readable (frame 16 4 0 5 7 [])]
     = Some (Raised (UnknownMessageType 4))
   \<and> wait_loop linux_nlpacket sample_request False 0 [] [Readable (frame 16 80 0 5 7 [])]
     = Some (Raised (KeyError 80))
   \<and> fst (tx_nlpacket_get_response linux_nlpacket (NetlinkManager_init 7) sample_request
          [Readable link_frame, Readable (addr_frame @ frame 16 4 0 5 7 [])])
     = Some (Raised (UnknownMessageType 4))"
proof -
  have h1: "unpack_header (take header_LEN (frame 16 4 0 5 7 []))
             = Inr (16, 4, 0, req_seq sample_request, req_pid sample_request)"
    by (simp add: unpack_header_frame_only)
  have h2: "unpack_header (take header_LEN (frame 16 80 0 5 7 []))
             = Inr (16, 80, 0, req_seq sample_request, req_pid sample_request)"
    by (simp add: unpack_header_frame_only)
  have a: "4 \<noteq> NLMSG_DONE linux_nlpacket" "4 \<noteq> NLMSG_ERROR linux_nlpacket"
          "frame_class linux_nlpacket 4 = None"
    by (simp_all add: linux_frame_class)
  have b: "80 \<noteq> NLMSG_DONE linux_nlpacket" "80 \<noteq> NLMSG_ERROR linux_nlpacket"
          "frame_class linux_nlpacket 80 = None"
    by (simp_all add: linux_frame_class)
  have pre: "req_message sample_request \<noteq> [] \<and> \<not> shutdown_flag (NetlinkManager_init 7)
      \<and> list_all2 (\<lambda>fs objs. fs \<noteq> [] \<and> data_frames linux_nlpacket sample_request fs [] objs)
           [[link_frame]] [[(Link, link_frame)]]
      \<and> data_frames linux_nlpacket sample_request [addr_frame] (frame 16 4 0 5 7 [])
           [(Address, addr_frame)]"
    by (simp add: NetlinkManager_init_def link_frame_ok addr_frame_ok)
  from unknown_type_of_matching_frame_raises
         [OF h1 a, where n = 0 and msgs = "[]" and evs = "[]" and m = "NetlinkManager_init 7"
            and fss = "[[link_frame]]" and objss = "[[(Link, link_frame)]]"
            and fs = "[addr_frame]" and objs = "[(Address, addr_frame)]"]
       unknown_type_of_matching_frame_raises [OF h2 b, where n = 0 and msgs = "[]" and evs = "[]"]
       pre
  show ?thesis by (simp add: linux_type_to_string_def)
qed

text \<open>
  The comparison of pid and sequence comes first: a frame of another pid is dropped
  whatever its type, here type 4 (\<^verbatim>\<open>NLMSG_OVERRUN\<close>), when the type has a name.
\<close>

lemma foreign_frame_of_named_type_skipped:
  "frame_class linux_nlpacket 4 = None
   \<and> 4 \<noteq> NLMSG_DONE linux_nlpacket \<and> 4 \<noteq> NLMSG_ERROR linux_nlpacket
   \<and> fst (tx_nlpacket_get_response linux_nlpacket (NetlinkManager_init 7) sample_request
          [Readable (link_frame @ frame 16 4 0 5 9999 [] @ done_frame_5_7)])
       = Some (Returned [(Link, link_frame)])"
proof -
  have fr: "data_frames linux_nlpacket sample_request [link_frame]
              (frame 16 4 0 5 9999 [] @ done_frame_5_7) [(Link, link_frame)]"
    by (simp add: link_frame_ok)
  have h: "unpack_header (take header_LEN (frame 16 4 0 5 9999 [] @ done_frame_5_7))
             = Inr (16, 4, 0, 5, 9999)"
    by (rule unpack_header_frame) simp_all
  have nm: "type_to_string linux_nlpacket 4 = Some ''NLMSG_OVERRUN''"
    by (simp add: linux_type_to_string_def)
  have fo: "9999 \<noteq> req_pid sample_request \<or> 5 \<noteq> req_seq sample_request" by simp
  have dr: "drop 16 (frame 16 4 0 5 9999 [] @ done_frame_5_7) = done_frame_5_7"
    by simp
  have rx: "rx_data linux_nlpacket sample_request
              (link_frame @ frame 16 4 0 5 9999 [] @ done_frame_5_7) []
            = Some (Return [(Link, link_frame)])"
  proof -
    have s1: "rx_data linux_nlpacket sample_request
                (link_frame @ frame 16 4 0 5 9999 [] @ done_frame_5_7) []
              = rx_data linux_nlpacket sample_request
                (frame 16 4 0 5 9999 [] @ done_frame_5_7) [(Link, link_frame)]"
      using rx_data_data_frames [OF fr, of "[]"] by simp
    have s2: "rx_data linux_nlpacket sample_request (frame 16 4 0 5 9999 [] @ done_frame_5_7) msgs
              = rx_data linux_nlpacket sample_request done_frame_5_7 msgs" for msgs
      using rx_data_foreign [OF h nm fo, of msgs] unfolding dr .
    have s3: "rx_data linux_nlpacket sample_request done_frame_5_7 msgs = Some (Return msgs)" for msgs
      using rx_data_done [OF done_frame_ok, of "[]" msgs] by simp
    show ?thesis unfolding s1 s2 s3 ..
  qed
  have ne: "link_frame @ frame 16 4 0 5 9999 [] @ done_frame_5_7 \<noteq> []" by simp
  have "wait_loop linux_nlpacket sample_request False 0 []
          [Readable (link_frame @ frame 16 4 0 5 9999 [] @ done_frame_5_7)]
        = Some (Returned [(Link, link_frame)])"
    unfolding wait_loop_Readable [OF ne] rx by simp
  then show ?thesis
    by (simp only: get_response_built simp_thms) (simp add: linux_frame_class)
qed

section \<open>Short buffers\<close>

lemma rx_data_short:
  assumes "data \<noteq> []" and "length data < header_LEN"
  shows "rx_data N nlpkt data msgs = Some (Raise StructError)"
  unfolding rx_data_step [OF assms(1)] rx_frame_short [OF assms(2)] by simp

text \<open>
  C4 (amended). The loop over the buffer runs while the buffer is not empty: an empty
  buffer hands the accumulator back to the wait loop, which goes on waiting with it; a
  buffer of at least 16 bytes has its header unpacked; a buffer that is not empty and
  shorter than 16 bytes makes \<^verbatim>\<open>unpack\<close> raise \<^verbatim>\<open>struct.error\<close>.
\<close>

theorem buffer_loop_runs_while_nonempty:
  "rx_data N nlpkt [] msgs = Some (Next [] msgs)
   \<and> (data \<noteq> [] \<and> rx_data N nlpkt data msgs = Some (Next data' msgs') \<longrightarrow>
        wait_loop N nlpkt False n msgs (Readable data # evs) = wait_loop N nlpkt False n msgs' evs)
   \<and> (data \<noteq> [] \<and> length data < header_LEN \<longrightarrow>
        rx_data N nlpkt data msgs = Some (Raise StructError)
        \<and> wait_loop N nlpkt False n msgs (Readable data # evs) = Some (Raised StructError))
   \<and> (header_LEN \<le> length data \<longrightarrow> (\<exists>h. unpack_header (take header_LEN data) = Inr h))"
proof -
  have a: "rx_data N nlpkt [] msgs = Some (Next [] msgs)" by (rule rx_data_Nil)
  have b: "data \<noteq> [] \<and> rx_data N nlpkt data msgs = Some (Next data' msgs') \<longrightarrow>
        wait_loop N nlpkt False n msgs (Readable data # evs) = wait_loop N nlpkt False n msgs' evs"
    by (simp add: wait_loop_Readable)
  have c: "data \<noteq> [] \<and> length data < header_LEN \<longrightarrow>
        rx_data N nlpkt data msgs = Some (Raise StructError)
        \<and> wait_loop N nlpkt False n msgs (Readable data # evs) = Some (Raised StructError)"
    by (simp add: wait_loop_Readable rx_data_short)
  have d: "header_LEN \<le> length data \<longrightarrow> (\<exists>h. unpack_header (take header_LEN data) = Inr h)"
    using unpack_header_long by blast
  from a b c d show ?thesis by blast
qed

lemma rx_data_link_frame_only:
  "rx_data linux_nlpacket sample_request link_frame [] = Some (Next [] [(Link, link_frame)])"
proof -
  have fr: "data_frames linux_nlpacket sample_request [link_frame] [] [(Link, link_frame)]"
    by (simp add: link_frame_ok)
  show ?thesis
    using rx_data_data_frames [OF fr, of "[]"] by (simp add: rx_data_Nil)
qed

theorem buffer_loop_runs_while_nonempty_witness:
  "wait_loop linux_nlpacket sample_request False 0 [] [Readable link_frame]
     = Some (Waiting 0 [(Link, link_frame)])
   \<and> wait_loop linux_nlpacket sample_request False 0 [(Link, link_frame)] [Readable [1, 2, 3]]
     = Some (Raised StructError)
   \<and> (\<exists>h. unpack_header (take header_LEN link_frame) = Inr h)"
proof -
  have l: "header_LEN \<le> length link_frame" by (simp add: link_frame_def header_LEN_def)
  have s: "[1, 2, 3 :: byte] \<noteq> [] \<and> length [1, 2, 3 :: byte] < header_LEN"
    by (simp add: header_LEN_def)
  from buffer_loop_runs_while_nonempty
         [of linux_nlpacket sample_request "[]" link_frame "[]" "[(Link, link_frame)]" 0 "[]"]
       buffer_loop_runs_while_nonempty
         [of linux_nlpacket sample_request "[(Link, link_frame)]" "[1, 2, 3]" "[]" "[]" 0 "[]"]
       l s rx_data_link_frame_only
  show ?thesis by simp
qed

text \<open>
  C4 as stated fails: three bytes left after a whole data frame make the call raise.
\<close>

theorem short_remainder_raises_counterexample:
  "0 < length [1, 2, 3 :: byte] \<and> length [1, 2, 3 :: byte] < header_LEN
   \<and> fst (tx_nlpacket_get_response linux_nlpacket (NetlinkManager_init 7) sample_request
          [Readable (link_frame @ [1, 2, 3])])
       = Some (Raised StructError)"
proof -
  have fr: "data_frames linux_nlpacket sample_request [link_frame] [1, 2, 3] [(Link, link_frame)]"
    by (simp add: link_frame_ok)
  have sh: "rx_data linux_nlpacket sample_request [1, 2, 3] [(Link, link_frame)] = Some (Raise StructError)"
    by (rule rx_data_short) (simp_all add: header_LEN_def)
  have rx: "rx_data linux_nlpacket sample_request (link_frame @ [1, 2, 3]) [] = Some (Raise StructError)"
    using rx_data_data_frames [OF fr, of "[]"] sh by simp
  have ne: "link_frame @ [1, 2, 3] \<noteq> []" by simp
  have "wait_loop linux_nlpacket sample_request False 0 [] [Readable (link_frame @ [1, 2, 3])]
          = Some (Raised StructError)"
    unfolding wait_loop_Readable [OF ne] rx by simp
  then show ?thesis
    by (simp only: get_response_built simp_thms) (simp add: header_LEN_def)
qed

section \<open>The bound on the wait\<close>

lemma wait_loop_timeouts:
  "n + k < MAX_NULL_READS \<Longrightarrow>
   wait_loop N nlpkt False n msgs (replicate k NotReadable @ evs) = wait_loop N nlpkt False (n + k) msgs evs"
  by (induction k arbitrary: n) simp_all

lemma wait_loop_last_timeout:
  "n + 1 = MAX_NULL_READS \<Longrightarrow>
   wait_loop N nlpkt False n msgs (NotReadable # evs) = Some (Returned msgs)"
  by simp

lemma wait_loop_gives_up:
  assumes "n < MAX_NULL_READS"
  shows "wait_loop N nlpkt False n msgs (replicate (MAX_NULL_READS - n) NotReadable @ evs)
           = Some (Returned msgs)"
proof -
  define k where "k = MAX_NULL_READS - n - 1"
  have "MAX_NULL_READS - n = Suc k" using assms by (simp add: k_def)
  then have r: "replicate (MAX_NULL_READS - n) NotReadable @ evs
                  = replicate k NotReadable @ (NotReadable # evs)"
    by (simp add: replicate_app_Cons_same)
  have lt: "n + k < MAX_NULL_READS" using assms by (simp add: k_def)
  have eq: "(n + k) + 1 = MAX_NULL_READS" using assms by (simp add: k_def)
  have "wait_loop N nlpkt False n msgs (replicate k NotReadable @ (NotReadable # evs))
          = wait_loop N nlpkt False (n + k) msgs (NotReadable # evs)"
    by (rule wait_loop_timeouts [OF lt])
  also have "\<dots> = Some (Returned msgs)"
    by (rule wait_loop_last_timeout [OF eq])
  finally show ?thesis unfolding r .
qed

lemma wait_loop_True: "wait_loop N nlpkt True n msgs evs = Some (Returned msgs)"
  by (cases evs) simp_all

lemma wait_loop_counts_all_timeouts:
  "wait_loop N nlpkt False n msgs evs = Some (Waiting k m) \<Longrightarrow>
   k = n + count_list evs NotReadable \<and> (n < MAX_NULL_READS \<longrightarrow> k < MAX_NULL_READS)"
proof (induction evs arbitrary: n msgs)
  case Nil
  then show ?case by simp
next
  case (Cons ev evs)
  show ?case
  proof (cases ev)
    case Signal
    with Cons.prems show ?thesis by (simp add: wait_loop_True)
  next
    case NotReadable
    with Cons.prems have w: "wait_loop N nlpkt False (n + 1) msgs evs = Some (Waiting k m)"
      and lt: "n + 1 < MAX_NULL_READS"
      by (auto split: if_splits)
    from Cons.IH [OF w] lt NotReadable show ?thesis by simp
  next
    case (Readable data)
    with Cons.prems obtain d' msgs' where
      w: "wait_loop N nlpkt False n msgs' evs = Some (Waiting k m)"
      by (auto split: if_splits option.splits step.splits)
    from Cons.IH [OF w] Readable show ?thesis by auto
  qed
qed

text \<open>
  C5 (amended). The wait loop counts every timeout of the call, whether or not data
  arrived in between: timeouts below the maximum keep it waiting with the counter
  advanced; the timeout that brings the counter to 30 returns the accumulator; while the
  loop waits its counter is its start value plus the number of timeouts so far; and a
  call that meets 30 timeouts and nothing else returns the empty list.
\<close>

theorem wait_gives_up_at_thirtieth_timeout:
  "(n + k < MAX_NULL_READS \<longrightarrow>
      wait_loop N nlpkt False n msgs (replicate k NotReadable @ evs) = wait_loop N nlpkt False (n + k) msgs evs)
   \<and> (n < MAX_NULL_READS \<longrightarrow>
      wait_loop N nlpkt False n msgs (replicate (MAX_NULL_READS - n) NotReadable @ evs) = Some (Returned msgs))
   \<and> (wait_loop N nlpkt False n msgs evs = Some (Waiting j ms) \<longrightarrow>
      j = n + count_list evs NotReadable \<and> (n < MAX_NULL_READS \<longrightarrow> j < MAX_NULL_READS))
   \<and> (req_message nlpkt \<noteq> [] \<and> \<not> shutdown_flag m \<longrightarrow>
      fst (tx_nlpacket_get_response N m nlpkt (replicate MAX_NULL_READS NotReadable @ evs)) = Some (Returned []))
   \<and> MAX_NULL_READS = 30"
proof -
  have a: "n + k < MAX_NULL_READS \<longrightarrow>
      wait_loop N nlpkt False n msgs (replicate k NotReadable @ evs) = wait_loop N nlpkt False (n + k) msgs evs"
    using wait_loop_timeouts by blast
  have b: "n < MAX_NULL_READS \<longrightarrow>
      wait_loop N nlpkt False n msgs (replicate (MAX_NULL_READS - n) NotReadable @ evs) = Some (Returned msgs)"
    using wait_loop_gives_up by blast
  have c: "wait_loop N nlpkt False n msgs evs = Some (Waiting j ms) \<longrightarrow>
      j = n + count_list evs NotReadable \<and> (n < MAX_NULL_READS \<longrightarrow> j < MAX_NULL_READS)"
    using wait_loop_counts_all_timeouts by blast
  have z: "0 < MAX_NULL_READS" by (simp add: MAX_NULL_READS_def)
  have d: "req_message nlpkt \<noteq> [] \<and> \<not> shutdown_flag m \<longrightarrow>
      fst (tx_nlpacket_get_response N m nlpkt (replicate MAX_NULL_READS NotReadable @ evs)) = Some (Returned [])"
    using wait_loop_gives_up [OF z, of N nlpkt "[]" evs]
    by (simp add: tx_nlpacket_get_response_def)
  have e: "MAX_NULL_READS = 30" by (simp add: MAX_NULL_READS_def)
  from a b c d e show ?thesis by blast
qed

theorem wait_gives_up_at_thirtieth_timeout_witness:
  "fst (tx_nlpacket_get_response linux_nlpacket (NetlinkManager_init 7) sample_request
          (replicate 30 NotReadable)) = Some (Returned [])
   \<and> wait_loop linux_nlpacket sample_request False 0 [] (replicate 29 NotReadable)
       = Some (Waiting 29 [])"
proof -
  have m: "req_message sample_request \<noteq> [] \<and> \<not> shutdown_flag (NetlinkManager_init 7)"
    by (simp add: NetlinkManager_init_def)
  have k: "0 + 29 < MAX_NULL_READS" by (simp add: MAX_NULL_READS_def)
  from wait_gives_up_at_thirtieth_timeout
         [of 0 29 linux_nlpacket sample_request "[]" "[]" 0 "[]" "NetlinkManager_init 7"]
       m k
  show ?thesis by (simp add: MAX_NULL_READS_def)
qed

text \<open>
  C5 as stated fails: after 29 timeouts and a data frame, one more timeout ends the
  call, although only one timeout in a row has passed; the frames that arrive later are
  never read.
\<close>

theorem timeouts_not_consecutive_counterexample:
  "wait_loop linux_nlpacket sample_request False 0 []
       (replicate 29 NotReadable @ [Readable link_frame]) = Some (Waiting 29 [(Link, link_frame)])
   \<and> fst (tx_nlpacket_get_response linux_nlpacket (NetlinkManager_init 7) sample_request
          (replicate 29 NotReadable @ [Readable link_frame, NotReadable,
             Readable (addr_frame @ done_frame_5_7)]))
       = Some (Returned [(Link, link_frame)])"
proof -
  have k: "0 + 29 < MAX_NULL_READS" by (simp add: MAX_NULL_READS_def)
  have ne: "link_frame \<noteq> []" by simp
  have r: "wait_loop linux_nlpacket sample_request False 29 [] (Readable link_frame # evs)
             = wait_loop linux_nlpacket sample_request False 29 [(Link, link_frame)] evs" for evs
    unfolding wait_loop_Readable [OF ne] rx_data_link_frame_only by simp
  have a: "wait_loop linux_nlpacket sample_request False 0 []
       (replicate 29 NotReadable @ [Readable link_frame]) = Some (Waiting 29 [(Link, link_frame)])"
    unfolding wait_loop_timeouts [OF k] add_0 r by simp
  have l: "29 + 1 = MAX_NULL_READS" by (simp add: MAX_NULL_READS_def)
  have b: "wait_loop linux_nlpacket sample_request False 0 []
          (replicate 29 NotReadable @ [Readable link_frame, NotReadable,
             Readable (addr_frame @ done_frame_5_7)])
       = Some (Returned [(Link, link_frame)])"
    unfolding append_Cons wait_loop_timeouts [OF k] add_0 r wait_loop_last_timeout [OF l] ..
  from a b show ?thesis by (simp only: get_response_built simp_thms)
qed

section \<open>VLAN names\<close>

lemma split_on_nonempty: "split_on c s \<noteq> []"
  by (induction s) (auto split: list.splits)

lemma split_on_no_sep: "c \<notin> set s \<Longrightarrow> split_on c s = [s]"
  by (induction s) auto

lemma split_on_sep: "c \<in> set s \<Longrightarrow> \<exists>w v ws. split_on c s = w # v # ws"
proof (induction s)
  case Nil
  then show ?case by simp
next
  case (Cons x xs)
  show ?case
  proof (cases "x = c")
    case True
    then show ?thesis using split_on_nonempty [of c xs] by (cases "split_on c xs") auto
  next
    case False
    with Cons.prems have "c \<in> set xs" by simp
    from Cons.IH [OF this] obtain w v ws where "split_on c xs = w # v # ws" by blast
    with False show ?thesis by simp
  qed
qed

lemma takeWhile_snoc_sep: "takeWhile (\<lambda>x. x \<noteq> c) (ys @ [c]) = takeWhile (\<lambda>x. x \<noteq> c) ys"
  by (induction ys) auto

lemma last_split_on:
  "last (split_on c s) = rev (takeWhile (\<lambda>x. x \<noteq> c) (rev s))"
proof (induction s)
  case Nil
  show ?case by simp
next
  case (Cons x xs)
  show ?case
  proof (cases "x = c")
    case True
    then show ?thesis
      using Cons.IH split_on_nonempty [of c xs] by (simp add: takeWhile_snoc_sep)
  next
    case False
    show ?thesis
    proof (cases "c \<in> set xs")
      case True
      from split_on_sep [OF True] obtain w v ws where s: "split_on c xs = w # v # ws" by blast
      have "takeWhile (\<lambda>x. x \<noteq> c) (rev xs @ [x]) = takeWhile (\<lambda>x. x \<noteq> c) (rev xs)"
        using True by (auto simp: takeWhile_append)
      then show ?thesis using Cons.IH False s by simp
    next
      case nin: False
      have "\<forall>y\<in>set (rev (x # xs)). y \<noteq> c" using False nin by auto
      then have "takeWhile (\<lambda>x. x \<noteq> c) (rev (x # xs)) = rev (x # xs)"
        by (simp only: takeWhile_eq_all_conv)
      then have "rev (takeWhile (\<lambda>x. x \<noteq> c) (rev (x # xs))) = x # xs"
        by (simp only: rev_rev_ident)
      moreover have "last (split_on c (x # xs)) = x # xs"
        using False nin by (simp add: split_on_no_sep)
      ultimately show ?thesis by (simp only:)
    qed
  qed
qed

lemma in_set_dropWhile: "x \<in> set xs \<Longrightarrow> \<not> P x \<Longrightarrow> x \<in> set (dropWhile P xs)"
  by (induction xs) auto

lemma in_set_strip: "c \<in> set s \<Longrightarrow> \<not> is_space c \<Longrightarrow> c \<in> set (strip s)"
  by (simp add: strip_def in_set_dropWhile)

lemma digits_value_non_digit:
  "c \<in> set u \<Longrightarrow> digit_of c = None \<Longrightarrow> digits_value acc u = None"
  by (induction u arbitrary: acc) (auto split: option.splits)

lemma py_int_non_digit:
  assumes "c \<in> set s" "\<not> is_space c" "digit_of c = None" "c \<noteq> CHR ''-''" "c \<noteq> CHR ''+''"
  shows "py_int s = Inl ValueError"
proof -
  have t: "c \<in> set (strip s)" using assms(1,2) by (rule in_set_strip)
  show ?thesis
  proof (cases "strip s")
    case Nil
    with t show ?thesis by simp
  next
    case (Cons a r)
    show ?thesis
    proof (cases "a = CHR ''-'' \<or> a = CHR ''+''")
      case True
      with t Cons assms(4,5) have "c \<in> set r" by auto
      then have "digits_value 0 r = None" using assms(3) by (rule digits_value_non_digit)
      with True Cons show ?thesis by (auto simp: py_int_def Let_def)
    next
      case False
      have "digits_value 0 (a # r) = None"
        using t Cons assms(3) digits_value_non_digit by metis
      with False Cons show ?thesis by (simp add: py_int_def Let_def)
    qed
  qed
qed

lemma py_int_error: "py_int s = Inl e \<Longrightarrow> e = ValueError"
  by (auto simp: py_int_def Let_def split: if_splits option.splits prod.splits)

lemma link_add_effect:
  "mgr_sequence (link_add enc m ifindex ifname kind info) = snd (Sequence_next (mgr_sequence m))
   \<and> sent (link_add enc m ifindex ifname kind info) =
       (if enc ifindex ifname kind info (next_val (mgr_sequence m) + 1) (mgr_pid m) = [] then sent m
        else sent m @ [enc ifindex ifname kind info (next_val (mgr_sequence m) + 1) (mgr_pid m)])"
  by (simp add: link_add_def build_next_def build_message_def Sequence_next_def tx_nlpacket_def Let_def)

text \<open>
  C8. When the name has a dot and the text after the last dot reads as an integer other
  than \<open>vlanid\<close>, \<^verbatim>\<open>link_add_vlan\<close> raises \<^verbatim>\<open>InvalidInterfaceNameVlanCombo\<close> and leaves
  the session as it was: no sequence number taken, nothing sent. When the name has no dot
  or that integer is \<open>vlanid\<close>, the call is \<^verbatim>\<open>_link_add\<close>, which takes the next sequence
  number and sends the request built with it.
\<close>

theorem vlan_suffix_checked_before_build:
  "(CHR ''.'' \<in> set ifname \<and> py_int (last (split_on CHR ''.'' ifname)) = Inr k \<and> k \<noteq> vlanid \<longrightarrow>
      link_add_vlan enc m ifindex ifname vlanid = (Inl InvalidInterfaceNameVlanCombo, m))
   \<and> (CHR ''.'' \<notin> set ifname \<or> py_int (last (split_on CHR ''.'' ifname)) = Inr vlanid \<longrightarrow>
      link_add_vlan enc m ifindex ifname vlanid
        = (Inr (), link_add enc m ifindex ifname ''vlan'' [(IFLA_VLAN_ID, vlanid)]))
   \<and> mgr_sequence (link_add enc m ifindex ifname kind info) = snd (Sequence_next (mgr_sequence m))
   \<and> sent (link_add enc m ifindex ifname kind info) =
       (if enc ifindex ifname kind info (next_val (mgr_sequence m) + 1) (mgr_pid m) = [] then sent m
        else sent m @ [enc ifindex ifname kind info (next_val (mgr_sequence m) + 1) (mgr_pid m)])
   \<and> last (split_on CHR ''.'' ifname) = rev (takeWhile (\<lambda>c. c \<noteq> CHR ''.'') (rev ifname))"
proof -
  have a: "CHR ''.'' \<in> set ifname \<and> py_int (last (split_on CHR ''.'' ifname)) = Inr k \<and> k \<noteq> vlanid \<longrightarrow>
      link_add_vlan enc m ifindex ifname vlanid = (Inl InvalidInterfaceNameVlanCombo, m)"
    by (simp add: link_add_vlan_def)
  have b: "CHR ''.'' \<notin> set ifname \<or> py_int (last (split_on CHR ''.'' ifname)) = Inr vlanid \<longrightarrow>
      link_add_vlan enc m ifindex ifname vlanid
        = (Inr (), link_add enc m ifindex ifname ''vlan'' [(IFLA_VLAN_ID, vlanid)])"
    by (auto simp: link_add_vlan_def)
  note c = link_add_effect [of enc m ifindex ifname kind info]
  have d: "last (split_on CHR ''.'' ifname) = rev (takeWhile (\<lambda>c. c \<noteq> CHR ''.'') (rev ifname))"
    by (rule last_split_on)
  from a b c d show ?thesis by blast
qed

lemma py_int_17: "py_int ''17'' = Inr 17"
  by (simp add: py_int_def strip_def is_space_def digit_of_def)

lemma py_int_12: "py_int ''12'' = Inr 12"
  by (simp add: py_int_def strip_def is_space_def digit_of_def)

theorem vlan_suffix_checked_before_build_witness:
  "link_add_vlan (\<lambda>i nm kd d sq p. frame 16 16 1025 sq p []) (NetlinkManager_init 7) 3 ''swp2.17'' 12
     = (Inl InvalidInterfaceNameVlanCombo, NetlinkManager_init 7)
   \<and> fst (link_add_vlan (\<lambda>i nm kd d sq p. frame 16 16 1025 sq p []) (NetlinkManager_init 7) 3 ''swp2.12'' 12)
     = Inr ()
   \<and> sent (snd (link_add_vlan (\<lambda>i nm kd d sq p. frame 16 16 1025 sq p []) (NetlinkManager_init 7) 3 ''swp2.12'' 12))
     = [frame 16 16 1025 1 7 []]"
proof -
  have s17: "last (split_on CHR ''.'' ''swp2.17'') = ''17''" by simp
  have s12: "last (split_on CHR ''.'' ''swp2.12'') = ''12''" by simp
  have h1: "CHR ''.'' \<in> set ''swp2.17'' \<and> py_int (last (split_on CHR ''.'' ''swp2.17'')) = Inr 17
              \<and> (17::int) \<noteq> 12"
    unfolding s17 py_int_17 by simp
  have h2: "CHR ''.'' \<notin> set ''swp2.12'' \<or> py_int (last (split_on CHR ''.'' ''swp2.12'')) = Inr 12"
    unfolding s12 py_int_12 by simp
  have ne: "frame 16 16 1025 sq p [] \<noteq> []" for sq p
    by (simp add: frame_def le32_def)
  note T1 = vlan_suffix_checked_before_build
      [of "''swp2.17''" 17 12 "\<lambda>i nm kd d sq p. frame 16 16 1025 sq p []" "NetlinkManager_init 7" 3
          "''vlan''" "[(IFLA_VLAN_ID, 12)]"]
  note T2 = vlan_suffix_checked_before_build
      [of "''swp2.12''" 12 12 "\<lambda>i nm kd d sq p. frame 16 16 1025 sq p []" "NetlinkManager_init 7" 3
          "''vlan''" "[(IFLA_VLAN_ID, 12)]"]
  from T1 h1 have a: "link_add_vlan (\<lambda>i nm kd d sq p. frame 16 16 1025 sq p []) (NetlinkManager_init 7) 3 ''swp2.17'' 12
     = (Inl InvalidInterfaceNameVlanCombo, NetlinkManager_init 7)" by blast
  from T2 h2 have b: "link_add_vlan (\<lambda>i nm kd d sq p. frame 16 16 1025 sq p []) (NetlinkManager_init 7) 3 ''swp2.12'' 12
     = (Inr (), link_add (\<lambda>i nm kd d sq p. frame 16 16 1025 sq p []) (NetlinkManager_init 7) 3 ''swp2.12'' ''vlan'' [(IFLA_VLAN_ID, 12)])"
    by blast
  from T2 have c: "sent (link_add (\<lambda>i nm kd d sq p. frame 16 16 1025 sq p []) (NetlinkManager_init 7) 3 ''swp2.12'' ''vlan'' [(IFLA_VLAN_ID, 12)])
     = [frame 16 16 1025 1 7 []]"
    by (simp add: ne NetlinkManager_init_def Sequence_init_def)
  from a b c show ?thesis by simp
qed

text \<open>
  C10. When the name has a dot and \<^verbatim>\<open>int\<close> rejects the text after the last dot (as it
  does whenever that text has a character that is no digit, sign or white space),
  \<^verbatim>\<open>link_add_vlan\<close> raises \<^verbatim>\<open>ValueError\<close> and leaves the session as it was; and
  \<^verbatim>\<open>InvalidInterfaceNameVlanCombo\<close> is raised only when that text reads as an integer.
\<close>

theorem vlan_suffix_not_integer_raises_ValueError:
  "(CHR ''.'' \<in> set ifname \<and> py_int (last (split_on CHR ''.'' ifname)) = Inl e \<longrightarrow>
      e = ValueError \<and> link_add_vlan enc m ifindex ifname vlanid = (Inl ValueError, m))
   \<and> (CHR ''.'' \<in> set ifname
       \<and> (\<exists>c\<in>set (last (split_on CHR ''.'' ifname)).
             \<not> is_space c \<and> digit_of c = None \<and> c \<noteq> CHR ''-'' \<and> c \<noteq> CHR ''+'') \<longrightarrow>
      link_add_vlan enc m ifindex ifname vlanid = (Inl ValueError, m))
   \<and> (fst (link_add_vlan enc m ifindex ifname vlanid) = Inl InvalidInterfaceNameVlanCombo \<longrightarrow>
      CHR ''.'' \<in> set ifname
      \<and> (\<exists>k. py_int (last (split_on CHR ''.'' ifname)) = Inr k \<and> k \<noteq> vlanid))"
proof -
  have a: "CHR ''.'' \<in> set ifname \<and> py_int (last (split_on CHR ''.'' ifname)) = Inl e \<longrightarrow>
      e = ValueError \<and> link_add_vlan enc m ifindex ifname vlanid = (Inl ValueError, m)"
    by (auto simp: link_add_vlan_def dest: py_int_error)
  have b: "CHR ''.'' \<in> set ifname
       \<and> (\<exists>c\<in>set (last (split_on CHR ''.'' ifname)).
             \<not> is_space c \<and> digit_of c = None \<and> c \<noteq> CHR ''-'' \<and> c \<noteq> CHR ''+'') \<longrightarrow>
      link_add_vlan enc m ifindex ifname vlanid = (Inl ValueError, m)"
    using py_int_non_digit [of _ "last (split_on CHR ''.'' ifname)"]
    by (auto simp: link_add_vlan_def)
  have c: "fst (link_add_vlan enc m ifindex ifname vlanid) = Inl InvalidInterfaceNameVlanCombo \<longrightarrow>
      CHR ''.'' \<in> set ifname
      \<and> (\<exists>k. py_int (last (split_on CHR ''.'' ifname)) = Inr k \<and> k \<noteq> vlanid)"
    by (auto simp: link_add_vlan_def split: if_splits sum.splits dest: py_int_error)
  from a b c show ?thesis by blast
qed

theorem vlan_suffix_not_integer_raises_ValueError_witness:
  "link_add_vlan (\<lambda>i nm kd d sq p. frame 16 16 1025 sq p []) (NetlinkManager_init 7) 3 ''eth0.abc'' 12
     = (Inl ValueError, NetlinkManager_init 7)"
proof -
  have s: "last (split_on CHR ''.'' ''eth0.abc'') = ''abc''" by simp
  have h: "CHR ''.'' \<in> set ''eth0.abc''
       \<and> (\<exists>c\<in>set (last (split_on CHR ''.'' ''eth0.abc'')).
             \<not> is_space c \<and> digit_of c = None \<and> c \<noteq> CHR ''-'' \<and> c \<noteq> CHR ''+'')"
    unfolding s by (simp add: is_space_def digit_of_def)
  from vlan_suffix_not_integer_raises_ValueError
         [of "''eth0.abc''" _ "\<lambda>i nm kd d sq p. frame 16 16 1025 sq p []" "NetlinkManager_init 7" 3 12] h
  show ?thesis by blast
qed

end
